theory Spec2Isabelle
  imports Complex_Main "HOL-Library.Word"
begin

section \<open>JavaScript values used by the string-splitting transformer\<close>

text \<open>
  A JavaScript string is a sequence of UTF-16 code units. A code point outside the basic
  plane is stored as a surrogate pair: a high surrogate (D800..DBFF) immediately followed by
  a low surrogate (DC00..DFFF).
\<close>

type_synonym code_unit = "16 word"
type_synonym jsstring = "code_unit list"

definition is_high_surrogate :: "code_unit \<Rightarrow> bool" where
  "is_high_surrogate u = (0xD800 \<le> u \<and> u \<le> 0xDBFF)"

definition is_low_surrogate :: "code_unit \<Rightarrow> bool" where
  "is_low_surrogate u = (0xDC00 \<le> u \<and> u \<le> 0xDFFF)"

text \<open>
  The numbers the transformer computes with are string lengths, chunk counts and the
  quotients of two of them. They are JavaScript doubles; every length is far below
  \<open>2 ^ 53\<close>, where doubles are exact on integers and a quotient of two such integers rounds
  to the same floor and ceiling as the exact quotient. What does not fit a natural number
  are the two results of a division by zero, which \<open>Math.ceil\<close> and \<open>Math.floor\<close> pass on.
\<close>

datatype jsnumber = Fin nat | PosInfinity | NaN

text \<open>\<open>Math.ceil(a / b)\<close> for a finite count \<open>a\<close>.\<close>

fun ceil_quotient :: "nat \<Rightarrow> jsnumber \<Rightarrow> jsnumber" where
  "ceil_quotient a (Fin b) =
     (if b = 0 then (if a = 0 then NaN else PosInfinity) else Fin ((a + b - 1) div b))"
| "ceil_quotient a PosInfinity = Fin 0"
| "ceil_quotient a NaN = NaN"

text \<open>\<open>Math.floor(a / b)\<close> for two finite counts.\<close>

definition floor_quotient :: "nat \<Rightarrow> nat \<Rightarrow> jsnumber" where
  "floor_quotient a b =
     (if b = 0 then (if a = 0 then NaN else PosInfinity) else Fin (a div b))"

text \<open>\<open>i < c\<close> and \<open>c >= n\<close> for a finite \<open>i\<close>, \<open>n\<close>: every comparison with NaN is false.\<close>

fun less_number :: "nat \<Rightarrow> jsnumber \<Rightarrow> bool" where
  "less_number i (Fin n) = (i < n)"
| "less_number i PosInfinity = True"
| "less_number i NaN = False"

fun number_ge :: "jsnumber \<Rightarrow> nat \<Rightarrow> bool" where
  "number_ge (Fin k) n = (k \<ge> n)"
| "number_ge PosInfinity n = True"
| "number_ge NaN n = False"

section \<open>The stringz library\<close>

text \<open>
  Modelled from the spec: \<open>stringz.length\<close> and \<open>stringz.substr\<close> belong to the external
  library stringz, which is not part of the sources. The spec has them measure a string in
  Unicode code points, never splitting a surrogate pair. The library cuts the string into
  symbols (\<open>toArray\<close>); \<open>length\<close> counts the symbols and \<open>substr\<close> joins a slice of them.
  Here a symbol is one code point: a high surrogate with the low surrogate that follows it,
  or any other single code unit (an unpaired surrogate included).
\<close>

fun toArray :: "jsstring \<Rightarrow> jsstring list" where
  "toArray [] = []"
| "toArray [u] = [[u]]"
| "toArray (u # v # us) =
     (if is_high_surrogate u \<and> is_low_surrogate v
      then [u, v] # toArray us
      else [u] # toArray (v # us))"

definition stringz_length :: "jsstring \<Rightarrow> nat" where
  "stringz_length str = length (toArray str)"

text \<open>
  \<open>substr(str, begin, len)\<close> for \<open>begin \<ge> 0\<close> and \<open>len \<ge> 0\<close>: the empty string when \<open>begin\<close>
  is not below the length, else the symbols \<open>begin\<close> to \<open>begin + len\<close>, joined.
\<close>

definition stringz_substr :: "jsstring \<Rightarrow> nat \<Rightarrow> nat \<Rightarrow> jsstring" where
  "stringz_substr str begin len =
     (if begin \<ge> stringz_length str then []
      else concat (take len (drop begin (toArray str))))"

section \<open>SplitStringTransformer.chunkString\<close>

text \<open>
  \<open>chunks[chunkIndex] = v\<close>. The loop below starts from the empty array with index 0 and
  raises the index by one after each write, so every write is at the index equal to the
  array's length and appends; an index further out, which would leave holes, does not occur.
\<close>

definition array_set :: "'a list \<Rightarrow> nat \<Rightarrow> 'a \<Rightarrow> 'a list" where
  "array_set xs i v = (if i < length xs then xs[i := v] else xs @ [v])"

text \<open>
  The \<open>for\<close> loop of \<open>chunkString\<close>. Its bound \<open>chunksCount\<close> is \<open>Infinity\<close> when the chunk
  size is 0, and then the loop never ends: the result \<open>None\<close> stands for a call that does
  not return.
\<close>

partial_function (option) chunkString_loop ::
  "jsstring \<Rightarrow> nat \<Rightarrow> jsnumber \<Rightarrow> nat \<Rightarrow> nat \<Rightarrow> jsstring list \<Rightarrow> jsstring list option" where
  "chunkString_loop string chunkSize chunksCount chunkIndex nextChunkStartIndex chunks =
     (if less_number chunkIndex chunksCount
      then chunkString_loop string chunkSize chunksCount
             (chunkIndex + 1) (nextChunkStartIndex + chunkSize)
             (array_set chunks chunkIndex (stringz_substr string nextChunkStartIndex chunkSize))
      else Some chunks)"

declare chunkString_loop.simps [code]

text \<open>
  \<open>chunkString(string, stringLength, chunkSize)\<close>. With a chunk size of \<open>Infinity\<close> the
  count \<open>Math.ceil(stringLength / Infinity)\<close> is 0 and with \<open>NaN\<close> it is \<open>NaN\<close>; in both
  cases the loop body does not run.
\<close>

definition chunkString :: "jsstring \<Rightarrow> nat \<Rightarrow> jsnumber \<Rightarrow> jsstring list option" where
  "chunkString string stringLength chunkSize =
     (let chunksCount = ceil_quotient stringLength chunkSize in
      case chunkSize of
        Fin k \<Rightarrow> chunkString_loop string k chunksCount 0 0 []
      | _ \<Rightarrow> Some [])"

section \<open>Syntax tree nodes\<close>

text \<open>
  The value of a literal node is a string, a boolean, \<open>null\<close> or a number. Only string
  values are touched by the transformer; of the numbers the integers are represented.
\<close>

datatype literal_value =
    StringValue jsstring
  | BooleanValue bool
  | NullValue
  | NumberValue int

text \<open>
  The node kinds that occur in the subtree the transformer builds and walks, and one kind
  without operands for the rest. The tree is a value: the \<open>parentNode\<close> links that
  \<open>NodeUtils.parentizeNode\<close> and \<open>NodeUtils.parentizeAst\<close> restore are determined by the
  tree's shape and are not stored.
\<close>

datatype node =
    Literal literal_value
  | BinaryExpression string node node
  | Identifier string

datatype error = ChunksShouldNotBeEmpty

text \<open>
  Modelled from the spec: \<open>NodeFactory\<close>, \<open>NodeGuards\<close> and \<open>NodeLiteralUtils\<close> are not part
  of the sources. A literal node carries its value, a binary expression node its operator
  token and its left and right operands; a node is a literal node by its kind tag and a
  string literal node when its value is a string.
\<close>

definition literalNode :: "jsstring \<Rightarrow> node" where
  "literalNode v = Literal (StringValue v)"

definition binaryExpressionNode :: "string \<Rightarrow> node \<Rightarrow> node \<Rightarrow> node" where
  "binaryExpressionNode operator left right = BinaryExpression operator left right"

fun isLiteralNode :: "node \<Rightarrow> bool" where
  "isLiteralNode (Literal v) = True"
| "isLiteralNode n = False"

fun isStringLiteralNode :: "node \<Rightarrow> bool" where
  "isStringLiteralNode (Literal (StringValue s)) = True"
| "isStringLiteralNode n = False"

section \<open>SplitStringTransformer.transformStringChunksToBinaryExpressionNode\<close>

text \<open>
  \<open>Array.prototype.shift\<close> removes the first element of the array it is called on and
  returns it, or returns \<open>undefined\<close> (here \<open>None\<close>) on an empty array. The second
  component is the array after the call.
\<close>

fun shift :: "'a list \<Rightarrow> 'a option \<times> 'a list" where
  "shift [] = (None, [])"
| "shift (x # xs) = (Some x, xs)"

text \<open>\<open>!chunk\<close> holds for \<open>undefined\<close> and for the empty string.\<close>

fun falsy :: "jsstring option \<Rightarrow> bool" where
  "falsy None = True"
| "falsy (Some s) = (s = [])"

text \<open>
  The builder works on the array it is given, not on a copy: the two \<open>shift\<close> calls take
  the first two chunks out of the caller's array. The result is therefore the returned
  node (or the error thrown) together with the contents of that array after the call.
  \<open>reduce\<close> folds the remaining chunks from the left and does not change the array.
\<close>

definition transformStringChunksToBinaryExpressionNode ::
  "jsstring list \<Rightarrow> (error + node) \<times> jsstring list" where
  "transformStringChunksToBinaryExpressionNode chunks =
     (let (firstChunk, chunks1) = shift chunks;
          (secondChunk, chunks2) = shift chunks1
      in if falsy firstChunk \<or> falsy secondChunk
         then (Inl ChunksShouldNotBeEmpty, chunks2)
         else
           (let initialBinaryExpressionNode =
                  binaryExpressionNode ''+''
                    (literalNode (the firstChunk)) (literalNode (the secondChunk))
            in (Inr (foldl
                  (\<lambda>binaryExpressionNode' chunk.
                     binaryExpressionNode ''+'' binaryExpressionNode' (literalNode chunk))
                  initialBinaryExpressionNode chunks2),
                chunks2)))"

section \<open>SplitStringTransformer.transformLiteralNodeByChunkLength\<close>

text \<open>
  The result is \<open>None\<close> when the call does not return, \<open>Some (Inl e)\<close> when it throws and
  \<open>Some (Inr (resultNode, stringChunks))\<close> when it returns the pair. The second element of
  the returned pair is the very array that was handed to the builder, read after the
  builder has run: the array literal evaluates its elements from left to right.
\<close>

definition transformLiteralNodeByChunkLength ::
  "node \<Rightarrow> jsnumber \<Rightarrow> (error + node \<times> jsstring list) option" where
  "transformLiteralNodeByChunkLength literalNode' chunkLength =
     (case literalNode' of
        Literal (StringValue v) \<Rightarrow>
          (let valueLength = stringz_length v in
           if number_ge chunkLength valueLength then Some (Inr (literalNode', []))
           else
             (case chunkString v valueLength chunkLength of
                None \<Rightarrow> None
              | Some stringChunks \<Rightarrow>
                  (case transformStringChunksToBinaryExpressionNode stringChunks of
                     (Inl e, stringChunks') \<Rightarrow> Some (Inl e)
                   | (Inr resultNode, stringChunks') \<Rightarrow> Some (Inr (resultNode, stringChunks')))))
      | _ \<Rightarrow> Some (Inr (literalNode', [])))"

section \<open>The tree walk of the second pass\<close>

text \<open>
  \<open>estraverse.replace\<close> with an \<open>enter\<close> callback belongs to the external traversal
  library. Its controller calls \<open>enter\<close> on a node; a returned node is put in the place of
  the visited one (\<open>undefined\<close>, here \<open>None\<close>, leaves it); the walk then goes on with the
  children of the node that is now in place, the left operand before the right one. An
  exception thrown by the callback ends the walk. Next to the resulting tree the function
  returns the nodes \<open>enter\<close> was called on, in the order of the calls.
\<close>

partial_function (option) replace_walk ::
  "(node \<Rightarrow> (error + node option) option) \<Rightarrow> node \<Rightarrow> (error + node \<times> node list) option" where
  "replace_walk enter n =
     (case enter n of
        None \<Rightarrow> None
      | Some (Inl e) \<Rightarrow> Some (Inl e)
      | Some (Inr target) \<Rightarrow>
          (case (case target of None \<Rightarrow> n | Some t \<Rightarrow> t) of
             BinaryExpression operator left right \<Rightarrow>
               Option.bind (replace_walk enter left) (\<lambda>l.
                 case l of
                   Inl e \<Rightarrow> Some (Inl e)
                 | Inr (left', calls1) \<Rightarrow>
                     Option.bind (replace_walk enter right) (\<lambda>r.
                       case r of
                         Inl e \<Rightarrow> Some (Inl e)
                       | Inr (right', calls2) \<Rightarrow>
                           Some (Inr (BinaryExpression operator left' right',
                                      n # calls1 @ calls2))))
           | n' \<Rightarrow> Some (Inr (n', [n]))))"

declare replace_walk.simps [code]

definition estraverse_replace ::
  "node \<Rightarrow> (node \<Rightarrow> (error + node option) option) \<Rightarrow> (error + node) option" where
  "estraverse_replace tree enter = map_option (map_sum id fst) (replace_walk enter tree)"

section \<open>SplitStringTransformer.transformNode\<close>

definition maxStringLengthForSecondPass :: nat where
  "maxStringLengthForSecondPass = 30000"

definition firstPassChunkLength :: nat where
  "firstPassChunkLength = 1000"

record options =
  splitStrings :: bool
  splitStringsChunkLength :: nat

text \<open>
  \<open>maxStringLengthForSecondPass / firstPassChunkLength <= stringChunksCount\<close>; the quotient
  of the two constants is exactly 30.
\<close>

definition isLargeString :: "nat \<Rightarrow> bool" where
  "isLargeString stringChunksCount =
     (maxStringLengthForSecondPass div firstPassChunkLength \<le> stringChunksCount)"

definition minSecondPathChunkLength :: "options \<Rightarrow> nat \<Rightarrow> jsnumber" where
  "minSecondPathChunkLength opts stringChunksCount =
     (if isLargeString stringChunksCount
      then floor_quotient stringChunksCount (splitStringsChunkLength opts)
      else Fin (splitStringsChunkLength opts))"

text \<open>The \<open>enter\<close> callback of the second pass.\<close>

definition secondPass_enter :: "jsnumber \<Rightarrow> node \<Rightarrow> (error + node option) option" where
  "secondPass_enter chunkLength n =
     (if isLiteralNode n
      then map_option (map_sum id (\<lambda>r. Some (fst r)))
             (transformLiteralNodeByChunkLength n chunkLength)
      else Some (Inr None))"

text \<open>
  \<open>NodeLiteralUtils.isProhibitedLiteralNode\<close> is not part of the sources and is a parameter.
\<close>

definition transformNode ::
  "(node \<Rightarrow> node \<Rightarrow> bool) \<Rightarrow> options \<Rightarrow> node \<Rightarrow> node \<Rightarrow> (error + node) option" where
  "transformNode isProhibitedLiteralNode opts literalNode' parentNode =
     (if isProhibitedLiteralNode literalNode' parentNode then Some (Inr literalNode')
      else
        (case transformLiteralNodeByChunkLength literalNode' (Fin firstPassChunkLength) of
           None \<Rightarrow> None
         | Some (Inl e) \<Rightarrow> Some (Inl e)
         | Some (Inr (firstPassChunksNode, stringChunks)) \<Rightarrow>
             (let stringChunksCount = length stringChunks in
              estraverse_replace firstPassChunksNode
                (secondPass_enter (minSecondPathChunkLength opts stringChunksCount)))))"

text \<open>
  The value of an expression built from string literals and \<open>+\<close>: on two strings the
  operator concatenates.
\<close>

fun evaluate :: "node \<Rightarrow> jsstring option" where
  "evaluate (Literal (StringValue s)) = Some s"
| "evaluate (BinaryExpression operator left right) =
     (if operator = ''+''
      then (case evaluate left of
              None \<Rightarrow> None
            | Some a \<Rightarrow> (case evaluate right of None \<Rightarrow> None | Some b \<Rightarrow> Some (a @ b)))
      else None)"
| "evaluate n = None"

section \<open>JavaScriptObfuscatorInternal.obfuscate\<close>

text \<open>
  Modelled from the spec: the type of \<open>sourceMapMode\<close> is declared outside the sources; the
  spec lists its values.
\<close>

datatype source_map_mode = Embedded | Separate | Disabled

record internal_options =
  seed :: int
  sourceMap :: bool
  compact :: bool
  sourceMapBaseUrl :: string
  sourceMapFileName :: string
  sourceMapMode :: source_map_mode

text \<open>The options handed to \<open>escodegen.generate\<close>; an unset property is \<open>None\<close>.\<close>

record generate_options =
  verbatim :: string
  sourceMapWithCode :: bool
  sourceMapProperty :: "string option"
  sourceContent :: "string option"
  formatCompact :: "bool option"

definition escodegenParams :: generate_options where
  "escodegenParams =
     \<lparr>verbatim = ''x-verbatim-property'', sourceMapWithCode = True,
      sourceMapProperty = None, sourceContent = None, formatCompact = None\<rparr>"

record generator_output =
  outputCode :: string
  outputMap :: string

record obfuscation_result =
  obfuscatedCode :: string
  sourceMapText :: string

text \<open>
  The calls \<open>obfuscate\<close> makes, in the order it makes them. The process-wide state is the
  random generator held by \<open>Utils\<close>; next to it the state carries the log of these calls.
  The entry of \<open>Utils.setRandomGenerator\<close> holds the generator that was installed, and the
  entries of the two calls that draw random values hold the generator that was in place
  when the call was made.
\<close>

datatype 'rng call =
    SetRandomGenerator 'rng
  | EsprimaParse
  | Parentize
  | StorageInitialize 'rng
  | ObfuscateAstTree 'rng
  | EscodegenGenerate
  | SourceMapCorrect

record 'rng process =
  randomGenerator :: 'rng
  callLog :: "'rng call list"

definition logged :: "'rng call \<Rightarrow> 'rng process \<Rightarrow> 'rng process" where
  "logged c p = p\<lparr>callLog := callLog p @ [c]\<rparr>"

text \<open>
  The parts \<open>obfuscate\<close> calls that are not in the sources are parameters: the generator
  \<open>new Chance(seed)\<close>, the parser, \<open>NodeUtils.parentize\<close>, the custom-node storage
  (constructed from the options and initialised with the stack trace analysis of the
  program body), \<open>Obfuscator.obfuscateAstTree\<close>, the code generator and
  \<open>SourceMapCorrector.correct\<close>. The storage and the obfuscator draw from the process-wide
  random generator and leave it advanced; the generator's result map is \<open>None\<close> when
  absent, else its text.
\<close>

record ('rng, 'ast, 'storage) collaborators =
  chance :: "int \<Rightarrow> 'rng"
  esprima_parse :: "string \<Rightarrow> 'ast"
  parentize :: "'ast \<Rightarrow> 'ast"
  storage_initialize :: "internal_options \<Rightarrow> 'ast \<Rightarrow> 'rng \<Rightarrow> 'storage \<times> 'rng"
  obfuscateAstTree :: "internal_options \<Rightarrow> 'ast \<Rightarrow> 'storage \<Rightarrow> 'rng \<Rightarrow> 'ast \<times> 'rng"
  escodegen_generate :: "'ast \<Rightarrow> generate_options \<Rightarrow> string \<times> string option"
  correct :: "obfuscation_result \<Rightarrow> string \<Rightarrow> source_map_mode \<Rightarrow> obfuscation_result"

text \<open>\<open>Utils.setRandomGenerator\<close> replaces the process-wide generator.\<close>

definition setRandomGenerator :: "'rng \<Rightarrow> 'rng process \<Rightarrow> 'rng process" where
  "setRandomGenerator g p = logged (SetRandomGenerator g) (p\<lparr>randomGenerator := g\<rparr>)"

definition generateCode ::
  "('rng, 'ast, 'storage) collaborators \<Rightarrow> internal_options \<Rightarrow> string \<Rightarrow> 'ast \<Rightarrow> generator_output" where
  "generateCode c opts sourceCode astTree =
     (let params0 = escodegenParams;
          params1 = (if sourceMap opts
                     then params0\<lparr>sourceMapProperty := Some ''sourceMap'',
                                  sourceContent := Some sourceCode\<rparr>
                     else params0);
          params2 = params1\<lparr>formatCompact := Some (compact opts)\<rparr>;
          (code, m) = escodegen_generate c astTree params2
      in \<lparr>outputCode = code, outputMap = (case m of None \<Rightarrow> [] | Some text \<Rightarrow> text)\<rparr>)"

definition getObfuscationResult ::
  "('rng, 'ast, 'storage) collaborators \<Rightarrow> internal_options \<Rightarrow> generator_output \<Rightarrow> obfuscation_result" where
  "getObfuscationResult c opts generatorOutput =
     correct c
       \<lparr>obfuscatedCode = outputCode generatorOutput, sourceMapText = outputMap generatorOutput\<rparr>
       (sourceMapBaseUrl opts @ sourceMapFileName opts)
       (sourceMapMode opts)"

definition obfuscate ::
  "('rng, 'ast, 'storage) collaborators \<Rightarrow> internal_options \<Rightarrow> string \<Rightarrow> 'rng process
     \<Rightarrow> obfuscation_result \<times> 'rng process" where
  "obfuscate c opts sourceCode p0 =
     (let p1 = (if seed opts \<noteq> 0 then setRandomGenerator (chance c (seed opts)) p0
                else p0);
          astTree = esprima_parse c sourceCode;
          p2 = logged EsprimaParse p1;
          astTree1 = parentize c astTree;
          p3 = logged Parentize p2;
          (customNodesStorage, g4) = storage_initialize c opts astTree1 (randomGenerator p3);
          p4 = logged (StorageInitialize (randomGenerator p3)) (p3\<lparr>randomGenerator := g4\<rparr>);
          (obfuscatedAstTree, g5) =
             obfuscateAstTree c opts astTree1 customNodesStorage (randomGenerator p4);
          p5 = logged (ObfuscateAstTree (randomGenerator p4)) (p4\<lparr>randomGenerator := g5\<rparr>);
          generatorOutput = generateCode c opts sourceCode obfuscatedAstTree;
          p6 = logged EscodegenGenerate p5;
          result = getObfuscationResult c opts generatorOutput;
          p7 = logged SourceMapCorrect p6
      in (result, p7))"

section \<open>Notions used to state the properties\<close>

text \<open>
  A position \<open>p\<close> of a string lies inside a surrogate pair when the code unit before it is a
  high surrogate and the code unit at it is a low surrogate.
\<close>

definition splits_surrogate_pair :: "jsstring \<Rightarrow> nat \<Rightarrow> bool" where
  "splits_surrogate_pair s p =
     (0 < p \<and> p < length s \<and> is_high_surrogate (s ! (p - 1)) \<and> is_low_surrogate (s ! p))"

text \<open>The positions, in the concatenation of the chunks, where one chunk ends and the next begins.\<close>

definition chunk_boundaries :: "jsstring list \<Rightarrow> nat list" where
  "chunk_boundaries cs = map (\<lambda>i. length (concat (take i cs))) [1..<length cs]"

text \<open>The chunk list in closed form: chunk \<open>j\<close> holds the symbols \<open>j * k\<close> to \<open>j * k + k\<close>.\<close>

definition chunks_of :: "jsstring \<Rightarrow> nat \<Rightarrow> jsstring list" where
  "chunks_of s k = map (\<lambda>j. stringz_substr s (j * k) k) [0..<(stringz_length s + k - 1) div k]"

text \<open>The literal leaves of a tree, from left to right.\<close>

fun literal_leaves :: "node \<Rightarrow> node list" where
  "literal_leaves (Literal v) = [Literal v]"
| "literal_leaves (BinaryExpression operator left right) = literal_leaves left @ literal_leaves right"
| "literal_leaves (Identifier x) = []"

text \<open>One step of the left fold: the tree so far on the left, one more chunk literal on the right.\<close>

abbreviation extend_right :: "node \<Rightarrow> jsstring \<Rightarrow> node" where
  "extend_right t c \<equiv> BinaryExpression ''+'' t (Literal (StringValue c))"

text \<open>The nodes of a tree in the order a walk without replacements enters them.\<close>

fun preorder :: "node \<Rightarrow> node list" where
  "preorder (Literal v) = [Literal v]"
| "preorder (BinaryExpression operator left right) =
     BinaryExpression operator left right # preorder left @ preorder right"
| "preorder (Identifier x) = [Identifier x]"

text \<open>
  A tree is settled for a chunk length when splitting any of its literal leaves with that
  chunk length returns the leaf as it is and reports no chunks.
\<close>

definition settled :: "jsnumber \<Rightarrow> node \<Rightarrow> bool" where
  "settled chunkLength t =
     (\<forall>x \<in> set (literal_leaves t).
        transformLiteralNodeByChunkLength x chunkLength = Some (Inr (x, [])))"

text \<open>
  The chunk count \<open>transformNode\<close> reads off the array returned by the first pass
  (\<open>stringChunks.length\<close>).
\<close>

definition stringChunksCount :: "node \<Rightarrow> (error + nat) option" where
  "stringChunksCount literalNode' =
     map_option (map_sum id (\<lambda>r. length (snd r)))
       (transformLiteralNodeByChunkLength literalNode' (Fin firstPassChunkLength))"

text \<open>
  A concrete set of collaborators and options, to run \<open>obfuscate\<close> on: the generator is a
  counter, the storage remembers the counter it was initialised at, and the obfuscator
  appends as many characters as storage and counter say.
\<close>

definition example_collaborators :: "(nat, string, nat) collaborators" where
  "example_collaborators =
     \<lparr>chance = (\<lambda>s. nat \<bar>s\<bar>),
      esprima_parse = (\<lambda>src. src),
      parentize = (\<lambda>ast. ast),
      storage_initialize = (\<lambda>opts ast g. (g, Suc g)),
      obfuscateAstTree = (\<lambda>opts ast storage g. (ast @ replicate (storage + g) CHR ''x'', Suc g)),
      escodegen_generate = (\<lambda>ast params. (ast, None)),
      correct = (\<lambda>r url mode. r)\<rparr>"

definition example_options :: "int \<Rightarrow> internal_options" where
  "example_options s =
     \<lparr>seed = s, sourceMap = False, compact = True, sourceMapBaseUrl = [],
      sourceMapFileName = [], sourceMapMode = Disabled\<rparr>"

section \<open>The loop of chunkString\<close>

lemma concat_toArray: "concat (toArray s) = s"
  by (induction s rule: toArray.induct) auto

lemma toArray_nonempty: "t \<in> set (toArray s) \<Longrightarrow> t \<noteq> []"
  by (induction s rule: toArray.induct) (auto split: if_splits)

lemma stringz_substr_eq: "stringz_substr s b l = concat (take l (drop b (toArray s)))"
  by (simp add: stringz_substr_def stringz_length_def)

lemma loop_infinite: "chunkString_loop s k PosInfinity i st cs = None"
proof (cases "chunkString_loop s k PosInfinity i st cs")
  case None
  then show ?thesis .
next
  case (Some r)
  then have "PosInfinity \<noteq> PosInfinity"
    by (rule chunkString_loop.raw_induct
          [where P = "\<lambda>_ _ c _ _ _ _. c \<noteq> PosInfinity", rotated])
       (auto split: if_splits)
  then show ?thesis by simp
qed

lemma loop_finite:
  "i = length cs \<Longrightarrow> i \<le> n \<Longrightarrow>
   chunkString_loop s k (Fin n) i st cs =
     Some (cs @ map (\<lambda>j. stringz_substr s (st + (j - i) * k) k) [i..<n])"
proof (induction "n - i" arbitrary: i st cs)
  case 0
  then show ?case by (subst chunkString_loop.simps) simp
next
  case (Suc d)
  then have lt: "i < n" by simp
  have "j - i = Suc (j - Suc i)" if "Suc i \<le> j" for j using that by simp
  then have m: "map (\<lambda>j. stringz_substr s (st + (j - i) * k) k) [i..<n] =
      stringz_substr s st k # map (\<lambda>j. stringz_substr s (st + k + (j - Suc i) * k) k) [Suc i..<n]"
    using lt by (subst upt_conv_Cons) (auto simp: add.assoc)
  have "chunkString_loop s k (Fin n) i st cs =
        chunkString_loop s k (Fin n) (Suc i) (st + k) (cs @ [stringz_substr s st k])"
    using lt Suc.prems by (subst chunkString_loop.simps) (simp add: array_set_def)
  also have "\<dots> = Some ((cs @ [stringz_substr s st k]) @
       map (\<lambda>j. stringz_substr s (st + k + (j - Suc i) * k) k) [Suc i..<n])"
    using Suc by (intro Suc.hyps(1)) auto
  finally show ?case using m by simp
qed

section \<open>Symbols and surrogate pairs\<close>

lemma low_not_high: "is_low_surrogate u \<Longrightarrow> \<not> is_high_surrogate u"
  by (simp add: is_low_surrogate_def is_high_surrogate_def word_le_nat_alt)

lemma drop_toArray: "\<exists>s'. drop i (toArray s) = toArray s'"
proof (induction s arbitrary: i rule: toArray.induct)
  case 1
  show ?case by (rule exI [of _ "[]"]) simp
next
  case (2 u)
  show ?case
  proof (cases i)
    case 0
    then show ?thesis by (intro exI [of _ "[u]"]) simp
  next
    case (Suc m)
    then show ?thesis by (intro exI [of _ "[]"]) simp
  qed
next
  case (3 u v us)
  show ?case
  proof (cases i)
    case 0
    then show ?thesis by (intro exI [of _ "u # v # us"]) simp
  next
    case (Suc m)
    then show ?thesis using 3 [of m] by (cases "is_high_surrogate u \<and> is_low_surrogate v") auto
  qed
qed

lemma take_toArray_Cons: "\<exists>r. concat (take (Suc m) (toArray (v # us))) = v # r"
  by (cases us) auto

lemma toArray_take: "toArray (concat (take k (toArray s))) = take k (toArray s)"
proof (induction s arbitrary: k rule: toArray.induct)
  case 1
  show ?case by simp
next
  case (2 u)
  show ?case by (cases k) auto
next
  case (3 u v us)
  show ?case
  proof (cases k)
    case 0
    then show ?thesis by simp
  next
    case (Suc m)
    show ?thesis
    proof (cases "is_high_surrogate u \<and> is_low_surrogate v")
      case True
      then show ?thesis using Suc 3(1) [OF True, of m] by simp
    next
      case False
      then have T: "take k (toArray (u # v # us)) = [u] # take m (toArray (v # us))"
        using Suc by simp
      show ?thesis
      proof (cases m)
        case 0
        then show ?thesis using T by simp
      next
        case (Suc m')
        obtain r where r: "concat (take m (toArray (v # us))) = v # r"
          using take_toArray_Cons Suc by blast
        have "toArray (v # r) = take m (toArray (v # us))"
          using 3(2) [OF False, of m] r by simp
        moreover have "toArray (u # v # r) = [u] # toArray (v # r)" using False by simp
        ultimately show ?thesis using T r by simp
      qed
    qed
  qed
qed

lemma toArray_substr: "toArray (stringz_substr s b l) = take l (drop b (toArray s))"
proof -
  obtain s' where "drop b (toArray s) = toArray s'" using drop_toArray by blast
  then show ?thesis by (simp add: stringz_substr_eq toArray_take)
qed

lemma stringz_length_substr:
  "stringz_length (stringz_substr s b l) = min l (stringz_length s - b)"
  by (simp add: stringz_length_def toArray_substr)

lemma concat_groups: "concat (map (\<lambda>j. take k (drop (j * k) xs)) [0..<n]) = take (n * k) xs"
proof (induction n)
  case 0
  show ?case by simp
next
  case (Suc n)
  show ?case using Suc take_add [of "n * k" k xs] by (simp add: add.commute)
qed

lemma token_boundary:
  "a = concat (take m (toArray s)) \<Longrightarrow> b = concat (drop m (toArray s)) \<Longrightarrow>
   a \<noteq> [] \<Longrightarrow> b \<noteq> [] \<Longrightarrow> \<not> (is_high_surrogate (last a) \<and> is_low_surrogate (hd b))"
proof (induction s arbitrary: m a b rule: toArray.induct)
  case 1
  then show ?case by simp
next
  case (2 u)
  then show ?case by (cases m) auto
next
  case (3 u v us)
  show ?case
  proof (cases m)
    case 0
    with 3 show ?thesis by simp
  next
    case (Suc m')
    show ?thesis
    proof (cases "is_high_surrogate u \<and> is_low_surrogate v")
      case True
      define a' where "a' = concat (take m' (toArray us))"
      have a: "a = u # v # a'" and b: "b = concat (drop m' (toArray us))"
        using 3(3,4) True Suc by (simp_all add: a'_def)
      show ?thesis
      proof (cases "a' = []")
        case Nil: True
        then have "last a = v" using a by simp
        then show ?thesis using True low_not_high by auto
      next
        case False
        then have "last a = last a'" using a by simp
        then show ?thesis using 3(1) [OF True a'_def b False] 3(6) b by simp
      qed
    next
      case False
      define a' where "a' = concat (take m' (toArray (v # us)))"
      have a: "a = u # a'" and b: "b = concat (drop m' (toArray (v # us)))"
        using 3(3,4) False Suc by (simp_all add: a'_def)
      show ?thesis
      proof (cases m')
        case 0
        then have "last a = u" "hd b = v" using a b by (simp_all add: concat_toArray a'_def)
        then show ?thesis using False by simp
      next
        case (Suc m'')
        then obtain r where "a' = v # r" using take_toArray_Cons a'_def by blast
        then have ne: "a' \<noteq> []" by simp
        then have "last a = last a'" using a by simp
        then show ?thesis using 3(2) [OF False a'_def b ne] 3(6) b by simp
      qed
    qed
  qed
qed

lemma token_boundary_nth:
  "\<not> splits_surrogate_pair s (length (concat (take m (toArray s))))"
proof
  define a where "a = concat (take m (toArray s))"
  define b where "b = concat (drop m (toArray s))"
  assume "splits_surrogate_pair s (length (concat (take m (toArray s))))"
  then have sp: "splits_surrogate_pair s (length a)" by (simp add: a_def)
  have "concat (take m (toArray s) @ drop m (toArray s)) = s"
    by (simp add: concat_toArray)
  then have s: "s = a @ b" unfolding a_def b_def concat_append by simp
  have "0 < length a" and "length a < length s"
    using sp by (auto simp: splits_surrogate_pair_def)
  then have ne: "a \<noteq> []" "b \<noteq> []" using s by auto
  have "s ! (length a - 1) = last a"
    using ne by (subst s) (simp add: nth_append last_conv_nth)
  moreover have "s ! (length a) = hd b"
    using ne by (subst s) (simp add: nth_append hd_conv_nth)
  ultimately show False
    using sp token_boundary [OF a_def b_def ne] by (simp add: splits_surrogate_pair_def)
qed

section \<open>The chunk list\<close>

lemma chunkString_Fin:
  "0 < k \<Longrightarrow> chunkString s L (Fin k) =
     Some (map (\<lambda>j. stringz_substr s (j * k) k) [0..<(L + k - 1) div k])"
  using loop_finite [of 0 "[]" "(L + k - 1) div k" s k 0]
  by (simp add: chunkString_def)

lemma chunkString_zero: "0 < L \<Longrightarrow> chunkString s L (Fin 0) = None"
  by (simp add: chunkString_def loop_infinite)

lemma chunkString_chunks_of:
  "0 < k \<Longrightarrow> chunkString s (stringz_length s) (Fin k) = Some (chunks_of s k)"
  by (simp add: chunkString_Fin chunks_of_def)

lemma ceil_div_bounds:
  fixes L k :: nat assumes "0 < k"
  shows "L \<le> ((L + k - 1) div k) * k" and "0 < L \<Longrightarrow> ((L + k - 1) div k - 1) * k < L"
proof -
  define n where "n = (L + k - 1) div k"
  have "L + k - 1 = n * k + (L + k - 1) mod k" by (simp add: n_def)
  moreover have "(L + k - 1) mod k < k" using assms by simp
  ultimately show up: "L \<le> n * k" by linarith
  assume "0 < L"
  then obtain n' where n': "n = Suc n'" using up by (cases n) auto
  have "n * k \<le> L + k - 1" by (simp add: n_def)
  then have "n' * k + k \<le> L + k - 1" using n' by (simp add: add.commute)
  then show "(n - 1) * k < L" using \<open>0 < L\<close> n' by simp
qed

lemma ceil_div_ceiling:
  fixes L k :: nat assumes "0 < k"
  shows "int ((L + k - 1) div k) = \<lceil>real L / real k\<rceil>"
proof -
  define n where "n = (L + k - 1) div k"
  have up: "L \<le> n * k" using ceil_div_bounds(1) [OF assms] by (simp add: n_def)
  show ?thesis
  proof (cases "L = 0")
    case True
    then show ?thesis using assms by simp
  next
    case False
    then have lo: "(n - 1) * k < L" using ceil_div_bounds(2) [OF assms, of L] by (simp add: n_def)
    obtain n' where n': "n = Suc n'" using up False by (cases n) auto
    have "real L \<le> real (n * k)" using up by (simp only: of_nat_le_iff)
    then have "real L \<le> real n * real k" by simp
    then have a: "real L / real k \<le> real n" using assms by (simp add: pos_divide_le_eq)
    have "real (n' * k) < real L" using lo n' by (simp only: of_nat_less_iff) simp
    then have "real n' * real k < real L" by simp
    then have "real n' < real L / real k" using assms by (simp add: pos_less_divide_eq)
    then have b: "real n - 1 < real L / real k" using n' by simp
    have "\<lceil>real L / real k\<rceil> = int n" using a b by (intro ceiling_unique) auto
    then show ?thesis by (simp add: n_def)
  qed
qed

lemma concat_map_concat: "concat (map (\<lambda>j. concat (f j)) xs) = concat (concat (map f xs))"
  by (induction xs) auto

lemma length_chunks_of: "length (chunks_of s k) = (stringz_length s + k - 1) div k"
  by (simp add: chunks_of_def)

lemma concat_take_chunks_of:
  "i \<le> length (chunks_of s k) \<Longrightarrow>
   concat (take i (chunks_of s k)) = concat (take (i * k) (toArray s))"
proof -
  assume "i \<le> length (chunks_of s k)"
  then have "take i (chunks_of s k) = map (\<lambda>j. stringz_substr s (j * k) k) [0..<i]"
    by (simp add: chunks_of_def take_map min_def)
  also have "concat \<dots> = concat (concat (map (\<lambda>j. take k (drop (j * k) (toArray s))) [0..<i]))"
    by (simp add: stringz_substr_eq concat_map_concat)
  finally show ?thesis by (simp add: concat_groups)
qed

lemma concat_chunks_of: "0 < k \<Longrightarrow> concat (chunks_of s k) = s"
proof -
  assume "0 < k"
  then have "stringz_length s \<le> length (chunks_of s k) * k"
    using ceil_div_bounds(1) by (simp add: length_chunks_of)
  then show ?thesis
    using concat_take_chunks_of [of "length (chunks_of s k)" s k]
    by (simp add: stringz_length_def concat_toArray)
qed

lemma chunks_of_nth_length:
  "0 < k \<Longrightarrow> c \<in> set (chunks_of s k) \<Longrightarrow> 0 < stringz_length c \<and> stringz_length c \<le> k"
proof -
  assume k: "0 < k" and "c \<in> set (chunks_of s k)"
  then obtain j where j: "j < (stringz_length s + k - 1) div k" and c: "c = stringz_substr s (j * k) k"
    by (auto simp: chunks_of_def)
  have "0 < stringz_length s" using j k by (cases "stringz_length s") auto
  then have "((stringz_length s + k - 1) div k - 1) * k < stringz_length s"
    using ceil_div_bounds(2) [OF k] by simp
  moreover have "j \<le> (stringz_length s + k - 1) div k - 1" using j by linarith
  then have "j * k \<le> ((stringz_length s + k - 1) div k - 1) * k" by (rule mult_le_mono1)
  ultimately have "j * k < stringz_length s" by linarith
  then show ?thesis using k c by (simp add: stringz_length_substr)
qed

lemma stringz_length_zero: "stringz_length c = 0 \<longleftrightarrow> c = []"
  by (cases c rule: toArray.cases) (auto simp: stringz_length_def)

lemma sum_length_chunks_of:
  "0 < k \<Longrightarrow> sum_list (map stringz_length (chunks_of s k)) = stringz_length s"
proof -
  assume k: "0 < k"
  let ?n = "(stringz_length s + k - 1) div k"
  have "map stringz_length (chunks_of s k) =
        map length (map (\<lambda>j. take k (drop (j * k) (toArray s))) [0..<?n])"
    by (simp add: chunks_of_def stringz_length_def toArray_substr comp_def)
  then have "sum_list (map stringz_length (chunks_of s k)) =
        length (concat (map (\<lambda>j. take k (drop (j * k) (toArray s))) [0..<?n]))"
    by (simp only: length_concat)
  also have "\<dots> = length (take (?n * k) (toArray s))" by (simp only: concat_groups)
  also have "\<dots> = stringz_length s"
    using ceil_div_bounds(1) [OF k, of "stringz_length s"] by (simp add: stringz_length_def)
  finally show ?thesis .
qed

lemma chunks_of_boundaries:
  "p \<in> set (chunk_boundaries (chunks_of s k)) \<Longrightarrow> \<not> splits_surrogate_pair s p"
proof -
  assume "p \<in> set (chunk_boundaries (chunks_of s k))"
  then obtain i where "i < length (chunks_of s k)" and "p = length (concat (take i (chunks_of s k)))"
    by (auto simp: chunk_boundaries_def)
  then have "p = length (concat (take (i * k) (toArray s)))"
    using concat_take_chunks_of [of i s k] by simp
  then show ?thesis using token_boundary_nth by simp
qed

text \<open>
  Claim C3. For every string \<open>S\<close> and chunk length \<open>K\<close> with \<open>1 \<le> K\<close> and \<open>K\<close> below the
  code-point length of \<open>S\<close>, \<open>chunkString\<close> returns, and what it returns are exactly
  \<open>\<lceil>length / K\<rceil>\<close> chunks whose concatenation in order is \<open>S\<close>, whose code-point lengths
  add up to the code-point length of \<open>S\<close>, none of which is empty, and none of whose
  boundaries lies inside a surrogate pair of \<open>S\<close>.
\<close>

theorem chunkString_round_trip:
  assumes "1 \<le> K" and "K < stringz_length S"
  shows "\<exists>chunks. chunkString S (stringz_length S) (Fin K) = Some chunks
           \<and> int (length chunks) = \<lceil>real (stringz_length S) / real K\<rceil>
           \<and> concat chunks = S
           \<and> sum_list (map stringz_length chunks) = stringz_length S
           \<and> (\<forall>c \<in> set chunks. c \<noteq> [])
           \<and> (\<forall>p \<in> set (chunk_boundaries chunks). \<not> splits_surrogate_pair S p)"
proof (intro exI conjI ballI)
  have k: "0 < K" using assms by simp
  show "chunkString S (stringz_length S) (Fin K) = Some (chunks_of S K)"
    using k by (rule chunkString_chunks_of)
  show "int (length (chunks_of S K)) = \<lceil>real (stringz_length S) / real K\<rceil>"
    using k by (simp only: length_chunks_of ceil_div_ceiling)
  show "concat (chunks_of S K) = S" using k by (rule concat_chunks_of)
  show "sum_list (map stringz_length (chunks_of S K)) = stringz_length S"
    using k by (rule sum_length_chunks_of)
  show "c \<noteq> []" if "c \<in> set (chunks_of S K)" for c
    using chunks_of_nth_length [OF k that] by (auto simp: stringz_length_def)
  show "\<not> splits_surrogate_pair S p" if "p \<in> set (chunk_boundaries (chunks_of S K))" for p
    using that by (rule chunks_of_boundaries)
qed

theorem chunkString_round_trip_witness:
  "1 \<le> (2::nat) \<and> 2 < stringz_length [0x61, 0xD83D, 0xDE00, 0x62, 0x63]
   \<and> (\<exists>chunks. chunkString [0x61, 0xD83D, 0xDE00, 0x62, 0x63]
                   (stringz_length [0x61, 0xD83D, 0xDE00, 0x62, 0x63]) (Fin 2) = Some chunks
           \<and> int (length chunks) = \<lceil>real (stringz_length [0x61, 0xD83D, 0xDE00, 0x62, 0x63]) / real 2\<rceil>
           \<and> concat chunks = [0x61, 0xD83D, 0xDE00, 0x62, 0x63]
           \<and> sum_list (map stringz_length chunks) = stringz_length [0x61, 0xD83D, 0xDE00, 0x62, 0x63]
           \<and> (\<forall>c \<in> set chunks. c \<noteq> [])
           \<and> (\<forall>p \<in> set (chunk_boundaries chunks).
                 \<not> splits_surrogate_pair [0x61, 0xD83D, 0xDE00, 0x62, 0x63] p))"
proof -
  have h1: "1 \<le> (2::nat)" by simp
  have h2: "2 < stringz_length [0x61, 0xD83D, 0xDE00, 0x62, 0x63]"
    by (simp add: stringz_length_def is_high_surrogate_def is_low_surrogate_def)
  show ?thesis using h1 h2 chunkString_round_trip [OF h1 h2] by (intro conjI)
qed

section \<open>The expression builder\<close>

lemma builder_short:
  "length chunks < 2 \<Longrightarrow>
   fst (transformStringChunksToBinaryExpressionNode chunks) = Inl ChunksShouldNotBeEmpty"
proof (cases chunks)
  case Nil
  then show ?thesis by (simp add: transformStringChunksToBinaryExpressionNode_def)
next
  case (Cons c cs)
  assume "length chunks < 2"
  then have "cs = []" using Cons by simp
  then show ?thesis using Cons by (simp add: transformStringChunksToBinaryExpressionNode_def)
qed

lemma builder_two:
  "c0 \<noteq> [] \<Longrightarrow> c1 \<noteq> [] \<Longrightarrow>
   transformStringChunksToBinaryExpressionNode (c0 # c1 # cs) =
     (Inr (foldl extend_right
             (BinaryExpression ''+'' (Literal (StringValue c0)) (Literal (StringValue c1))) cs),
      cs)"
  by (simp add: transformStringChunksToBinaryExpressionNode_def literalNode_def
        binaryExpressionNode_def)

lemma builder_empty_chunk:
  "c0 = [] \<or> c1 = [] \<Longrightarrow>
   fst (transformStringChunksToBinaryExpressionNode (c0 # c1 # cs)) = Inl ChunksShouldNotBeEmpty"
  by (auto simp: transformStringChunksToBinaryExpressionNode_def)

lemma literal_leaves_foldl:
  "literal_leaves (foldl extend_right t cs) = literal_leaves t @ map literalNode cs"
  by (induction cs arbitrary: t) (simp_all add: literalNode_def)

lemma evaluate_foldl:
  "evaluate t = Some a \<Longrightarrow> evaluate (foldl extend_right t cs) = Some (a @ concat cs)"
  by (induction cs arbitrary: t a) simp_all

lemma length_chunks_of_ge2:
  assumes "1 \<le> K" and "K < stringz_length S"
  shows "2 \<le> length (chunks_of S K)"
proof -
  have "2 * K \<le> stringz_length S + K - 1" using assms by simp
  then have "(2 * K) div K \<le> (stringz_length S + K - 1) div K" by (rule div_le_mono)
  then show ?thesis using assms by (simp add: length_chunks_of)
qed

lemma chunks_of_nonempty: "0 < k \<Longrightarrow> c \<in> set (chunks_of s k) \<Longrightarrow> c \<noteq> []"
  using chunks_of_nth_length [of k c s] by (auto simp: stringz_length_def)

lemma list_two: "2 \<le> length xs \<Longrightarrow> \<exists>a b r. xs = a # b # r"
  by (cases xs; cases "tl xs") auto

lemma chunks_of_split:
  assumes "1 \<le> K" and "K < stringz_length S"
  obtains c0 c1 rest where "chunks_of S K = c0 # c1 # rest" and "c0 \<noteq> []" and "c1 \<noteq> []"
proof -
  from length_chunks_of_ge2 [OF assms] obtain c0 c1 rest where e: "chunks_of S K = c0 # c1 # rest"
    using list_two by blast
  have "c \<noteq> []" if "c \<in> set (chunks_of S K)" for c
    using chunks_of_nonempty [of K c S] that assms by simp
  then have "c0 \<noteq> []" "c1 \<noteq> []" using e by auto
  with e show ?thesis by (rule that)
qed

lemma transform_split:
  assumes "1 \<le> K" and "K < stringz_length S" and "chunks_of S K = c0 # c1 # rest"
  shows "transformLiteralNodeByChunkLength (Literal (StringValue S)) (Fin K) =
     Some (Inr (foldl extend_right
                  (BinaryExpression ''+'' (Literal (StringValue c0)) (Literal (StringValue c1)))
                  rest,
                rest))"
proof -
  have ne: "c0 \<noteq> []" "c1 \<noteq> []"
    using chunks_of_nonempty [of K c0 S] chunks_of_nonempty [of K c1 S] assms by simp_all
  have "chunkString S (stringz_length S) (Fin K) = Some (c0 # c1 # rest)"
    using assms chunkString_chunks_of [of K S] by simp
  then show ?thesis
    using assms(2) builder_two [OF ne]
    by (simp add: transformLiteralNodeByChunkLength_def)
qed

lemma transform_unchanged:
  "number_ge chunkLength (stringz_length S) \<Longrightarrow>
   transformLiteralNodeByChunkLength (Literal (StringValue S)) chunkLength =
     Some (Inr (Literal (StringValue S), []))"
  by (simp add: transformLiteralNodeByChunkLength_def)

lemma transform_non_string:
  "\<not> isStringLiteralNode n \<Longrightarrow> transformLiteralNodeByChunkLength n chunkLength = Some (Inr (n, []))"
  by (cases n rule: isStringLiteralNode.cases) (simp_all add: transformLiteralNodeByChunkLength_def)

text \<open>
  Claim C6. For every string literal \<open>S\<close> and chunk length \<open>K\<close> that is at least the
  code-point length of \<open>S\<close>, splitting \<open>S\<close> with \<open>K\<close> returns the literal node as it is and
  an empty chunk list. Both passes split through this one function.
\<close>

theorem no_op_guard:
  "stringz_length S \<le> K \<Longrightarrow>
   transformLiteralNodeByChunkLength (Literal (StringValue S)) (Fin K) =
     Some (Inr (Literal (StringValue S), []))"
  by (simp add: transform_unchanged)

theorem no_op_guard_witness:
  "stringz_length [0x61, 0x62] \<le> 2
   \<and> transformLiteralNodeByChunkLength (Literal (StringValue [0x61, 0x62])) (Fin 2) =
       Some (Inr (Literal (StringValue [0x61, 0x62]), []))"
proof -
  have h: "stringz_length [0x61, 0x62] \<le> 2"
    by (simp add: stringz_length_def is_high_surrogate_def)
  show ?thesis using h no_op_guard [OF h] by (intro conjI)
qed

text \<open>
  Claim C8. Let \<open>n\<close> be the size of the chunk list of a string literal for a chunk length
  \<open>K \<ge> 1\<close>. If \<open>n < 2\<close> the literal is returned unchanged; if \<open>n = 2\<close> the result is one
  binary \<open>+\<close> expression with the first chunk on the left and the second on the right; if
  \<open>n > 2\<close> it is the left fold that extends this two-chunk tree by one chunk literal on the
  right for every further chunk. From two chunks on, the literal leaves of the result, read
  from left to right, are the chunks in their order.
\<close>

theorem expression_builder_shape:
  assumes "1 \<le> K"
  shows "\<exists>chunks resultNode stringChunks.
      chunkString S (stringz_length S) (Fin K) = Some chunks
    \<and> transformLiteralNodeByChunkLength (Literal (StringValue S)) (Fin K) =
        Some (Inr (resultNode, stringChunks))
    \<and> (length chunks < 2 \<longrightarrow> resultNode = Literal (StringValue S))
    \<and> (length chunks = 2 \<longrightarrow>
         resultNode = BinaryExpression ''+'' (Literal (StringValue (chunks ! 0)))
                        (Literal (StringValue (chunks ! 1))))
    \<and> (length chunks > 2 \<longrightarrow>
         resultNode = foldl extend_right
                        (BinaryExpression ''+'' (Literal (StringValue (chunks ! 0)))
                           (Literal (StringValue (chunks ! 1))))
                        (drop 2 chunks))
    \<and> (length chunks \<ge> 2 \<longrightarrow> literal_leaves resultNode = map literalNode chunks)"
proof (cases "K < stringz_length S")
  case True
  obtain c0 c1 rest where e: "chunks_of S K = c0 # c1 # rest"
    using chunks_of_split [OF assms True] by blast
  have c: "chunkString S (stringz_length S) (Fin K) = Some (c0 # c1 # rest)"
    using assms chunkString_chunks_of [of K S] e by simp
  show ?thesis
    using c transform_split [OF assms True e]
    by (intro exI [of _ "c0 # c1 # rest"] exI [of _ "foldl extend_right
          (BinaryExpression ''+'' (Literal (StringValue c0)) (Literal (StringValue c1))) rest"]
          exI [of _ rest])
       (simp add: literal_leaves_foldl literalNode_def)
next
  case False
  then have le: "stringz_length S \<le> K" by simp
  have "stringz_length S + K - 1 < 2 * K" using le assms by simp
  then have "(stringz_length S + K - 1) div K < 2"
    using assms by (simp add: div_less_iff_less_mult mult.commute)
  then have n: "length (chunks_of S K) < 2" by (simp add: length_chunks_of)
  have c: "chunkString S (stringz_length S) (Fin K) = Some (chunks_of S K)"
    using assms chunkString_chunks_of [of K S] by simp
  show ?thesis
    using c n transform_unchanged [of "Fin K" S] le
    by (intro exI [of _ "chunks_of S K"] exI [of _ "Literal (StringValue S)"] exI [of _ "[]"])
       simp
qed

theorem expression_builder_shape_witness:
  "1 \<le> (1::nat) \<and> (\<exists>chunks resultNode stringChunks.
      chunkString [0x61, 0x62, 0x63] (stringz_length [0x61, 0x62, 0x63]) (Fin 1) = Some chunks
    \<and> transformLiteralNodeByChunkLength (Literal (StringValue [0x61, 0x62, 0x63])) (Fin 1) =
        Some (Inr (resultNode, stringChunks))
    \<and> (length chunks < 2 \<longrightarrow> resultNode = Literal (StringValue [0x61, 0x62, 0x63]))
    \<and> (length chunks = 2 \<longrightarrow>
         resultNode = BinaryExpression ''+'' (Literal (StringValue (chunks ! 0)))
                        (Literal (StringValue (chunks ! 1))))
    \<and> (length chunks > 2 \<longrightarrow>
         resultNode = foldl extend_right
                        (BinaryExpression ''+'' (Literal (StringValue (chunks ! 0)))
                           (Literal (StringValue (chunks ! 1))))
                        (drop 2 chunks))
    \<and> (length chunks \<ge> 2 \<longrightarrow> literal_leaves resultNode = map literalNode chunks))"
proof -
  have h: "1 \<le> (1::nat)" by simp
  show ?thesis using h expression_builder_shape [OF h, of "[0x61, 0x62, 0x63]"] by (intro conjI)
qed

text \<open>
  Claim C9. Building a concatenation expression from fewer than two chunks throws the
  error, and for a string literal split with a chunk length of at least 1 and below its
  code-point length the split returns a node and a chunk list: the throwing branch is
  not reached.
\<close>

theorem fewer_than_two_chunks_raises:
  "(length chunks < 2 \<longrightarrow>
      fst (transformStringChunksToBinaryExpressionNode chunks) = Inl ChunksShouldNotBeEmpty)
   \<and> (1 \<le> K \<and> K < stringz_length S \<longrightarrow>
      (\<exists>resultNode stringChunks.
         transformLiteralNodeByChunkLength (Literal (StringValue S)) (Fin K) =
           Some (Inr (resultNode, stringChunks))))"
proof (intro conjI impI)
  assume "length chunks < 2"
  then show "fst (transformStringChunksToBinaryExpressionNode chunks) = Inl ChunksShouldNotBeEmpty"
    by (rule builder_short)
next
  assume a: "1 \<le> K \<and> K < stringz_length S"
  then obtain c0 c1 rest where e: "chunks_of S K = c0 # c1 # rest"
    using chunks_of_split [of K S] by blast
  show "\<exists>resultNode stringChunks.
         transformLiteralNodeByChunkLength (Literal (StringValue S)) (Fin K) =
           Some (Inr (resultNode, stringChunks))"
    using transform_split [of K S c0 c1 rest] a e by simp
qed

theorem fewer_than_two_chunks_raises_witness:
  "length [[0x61 :: code_unit]] < 2 \<and> 1 \<le> (1::nat) \<and> 1 < stringz_length [0x61, 0x62]
   \<and> fst (transformStringChunksToBinaryExpressionNode [[0x61]]) = Inl ChunksShouldNotBeEmpty
   \<and> (\<exists>resultNode stringChunks.
         transformLiteralNodeByChunkLength (Literal (StringValue [0x61, 0x62])) (Fin 1) =
           Some (Inr (resultNode, stringChunks)))"
proof -
  have h1: "length [[0x61 :: code_unit]] < 2" by simp
  have h2: "1 \<le> (1::nat) \<and> 1 < stringz_length [0x61, 0x62]"
    by (simp add: stringz_length_def is_high_surrogate_def)
  show ?thesis
    using h1 h2 fewer_than_two_chunks_raises [of "[[0x61]]" 1 "[0x61, 0x62]"] by blast
qed

section \<open>The walk of the second pass\<close>

lemma literal_leaves_preorder: "set (literal_leaves t) \<subseteq> set (preorder t)"
  by (induction t) auto

lemma enter_non_literal:
  "\<not> isLiteralNode n \<Longrightarrow> secondPass_enter K n = Some (Inr None)"
  by (simp add: secondPass_enter_def)

lemma enter_literal:
  "transformLiteralNodeByChunkLength (Literal v) K = Some (Inr (t, cs)) \<Longrightarrow>
   secondPass_enter K (Literal v) = Some (Inr (Some t))"
  by (simp add: secondPass_enter_def)

lemma enter_literal_None:
  "transformLiteralNodeByChunkLength (Literal v) K = None \<Longrightarrow>
   secondPass_enter K (Literal v) = None"
  by (simp add: secondPass_enter_def)

lemma settled_Bin:
  "settled K (BinaryExpression operator l r) \<longleftrightarrow> settled K l \<and> settled K r"
  by (auto simp: settled_def)

lemma walk_settled:
  "settled K t \<Longrightarrow> replace_walk (secondPass_enter K) t = Some (Inr (t, preorder t))"
proof (induction t)
  case (Literal v)
  then have "transformLiteralNodeByChunkLength (Literal v) K = Some (Inr (Literal v, []))"
    by (simp add: settled_def)
  then have "secondPass_enter K (Literal v) = Some (Inr (Some (Literal v)))"
    by (rule enter_literal)
  then show ?case by (subst replace_walk.simps) simp
next
  case (BinaryExpression operator l r)
  then have l: "replace_walk (secondPass_enter K) l = Some (Inr (l, preorder l))"
    and r: "replace_walk (secondPass_enter K) r = Some (Inr (r, preorder r))"
    by (simp_all add: settled_Bin)
  have "secondPass_enter K (BinaryExpression operator l r) = Some (Inr None)"
    by (simp add: enter_non_literal)
  then show ?case using l r by (subst replace_walk.simps) simp
next
  case (Identifier x)
  have "secondPass_enter K (Identifier x) = Some (Inr None)"
    by (simp add: enter_non_literal)
  then show ?case by (subst replace_walk.simps) simp
qed

lemma walk_replaced:
  assumes "secondPass_enter K n = Some (Inr (Some t))" and "settled K t"
  shows "replace_walk (secondPass_enter K) n =
           Some (Inr (t, n # concat (map preorder (case t of
                    BinaryExpression operator l r \<Rightarrow> [l, r] | _ \<Rightarrow> []))))"
proof (cases t)
  case (Literal v)
  then show ?thesis using assms(1) by (subst replace_walk.simps) simp
next
  case (BinaryExpression operator l r)
  then have "settled K l" "settled K r" using assms(2) by (simp_all add: settled_Bin)
  then have "replace_walk (secondPass_enter K) l = Some (Inr (l, preorder l))"
    and "replace_walk (secondPass_enter K) r = Some (Inr (r, preorder r))"
    by (simp_all add: walk_settled)
  then show ?thesis using assms(1) BinaryExpression by (subst replace_walk.simps) simp
next
  case (Identifier x)
  then show ?thesis using assms(1) by (subst replace_walk.simps) simp
qed

lemma small_chunk_unchanged:
  "stringz_length c \<le> K \<Longrightarrow>
   transformLiteralNodeByChunkLength (literalNode c) (Fin K) = Some (Inr (literalNode c, []))"
  by (simp add: literalNode_def transform_unchanged)

lemma settled_split:
  assumes "1 \<le> K" and "K < stringz_length S"
    and "transformLiteralNodeByChunkLength (Literal (StringValue S)) (Fin K) = Some (Inr (t, cs))"
  shows "settled (Fin K) t" and "evaluate t = Some S" and "\<exists>operator l r. t = BinaryExpression operator l r"
    and "literal_leaves t = map literalNode (chunks_of S K)"
proof -
  obtain c0 c1 rest where e: "chunks_of S K = c0 # c1 # rest"
    using chunks_of_split [OF assms(1,2)] by blast
  have t: "t = foldl extend_right
      (BinaryExpression ''+'' (Literal (StringValue c0)) (Literal (StringValue c1))) rest"
    using transform_split [OF assms(1,2) e] assms(3) by simp
  show lv: "literal_leaves t = map literalNode (chunks_of S K)"
    by (simp add: t e literal_leaves_foldl literalNode_def)
  show "settled (Fin K) t"
    unfolding settled_def lv
    using chunks_of_nth_length [of K _ S] assms(1) small_chunk_unchanged by auto
  have "evaluate t = Some ((c0 @ c1) @ concat rest)"
    unfolding t by (rule evaluate_foldl) simp
  also have "(c0 @ c1) @ concat rest = concat (chunks_of S K)" by (simp add: e)
  also have "\<dots> = S" using assms(1) by (simp add: concat_chunks_of)
  finally show "evaluate t = Some S" .
  show "\<exists>operator l r. t = BinaryExpression operator l r"
    unfolding t by (cases rest rule: rev_cases) simp_all
qed

lemma settled_unchanged:
  "transformLiteralNodeByChunkLength (Literal v) K = Some (Inr (Literal v, [])) \<Longrightarrow>
   settled K (Literal v)"
  by (simp add: settled_def)

lemma transform_literal_cases:
  assumes "K \<noteq> Fin 0" and "K \<noteq> NaN"
  shows "\<exists>t cs. transformLiteralNodeByChunkLength (Literal v) K = Some (Inr (t, cs))
           \<and> settled K t \<and> evaluate t = evaluate (Literal v)"
proof (cases "isStringLiteralNode (Literal v)")
  case False
  then have "transformLiteralNodeByChunkLength (Literal v) K = Some (Inr (Literal v, []))"
    by (rule transform_non_string)
  then show ?thesis using settled_unchanged by blast
next
  case True
  then obtain S where v: "v = StringValue S" by (cases v) auto
  show ?thesis
  proof (cases "number_ge K (stringz_length S)")
    case True
    then have "transformLiteralNodeByChunkLength (Literal v) K = Some (Inr (Literal v, []))"
      unfolding v by (rule transform_unchanged)
    then show ?thesis using settled_unchanged by blast
  next
    case False
    then obtain k where k: "K = Fin k" "1 \<le> k" "k < stringz_length S"
      using assms by (cases K) auto
    obtain c0 c1 rest where e: "chunks_of S k = c0 # c1 # rest"
      using chunks_of_split [OF k(2,3)] by blast
    note sp = transform_split [OF k(2,3) e]
    show ?thesis
      using sp settled_split(1,2) [OF k(2,3) sp] unfolding v k(1) by auto
  qed
qed

lemma foldl_extend_right_shape:
  "\<exists>operator l r. foldl extend_right (BinaryExpression o' a b) cs = BinaryExpression operator l r"
  by (cases cs rule: rev_cases) simp_all

lemma builder_result_shape:
  assumes "transformStringChunksToBinaryExpressionNode chunks = (Inr t, cs)"
  shows "\<exists>operator l r. t = BinaryExpression operator l r"
proof -
  obtain a b where "t = foldl extend_right (BinaryExpression ''+'' a b) cs"
    using assms
    by (auto simp: transformStringChunksToBinaryExpressionNode_def binaryExpressionNode_def
          literalNode_def Let_def split: prod.splits if_splits)
  then show ?thesis using foldl_extend_right_shape by simp
qed

lemma transform_result_shape:
  assumes "transformLiteralNodeByChunkLength (Literal v) K = Some (Inr (t, cs))"
  shows "t = Literal v \<or> (\<exists>operator l r. t = BinaryExpression operator l r)"
  using assms builder_result_shape
  by (auto simp: transformLiteralNodeByChunkLength_def Let_def
        split: literal_value.splits if_splits option.splits prod.splits sum.splits)

lemma walk_literal:
  assumes "transformLiteralNodeByChunkLength (Literal v) K = Some (Inr (t, cs))"
    and "settled K t"
  shows "\<exists>calls. replace_walk (secondPass_enter K) (Literal v) = Some (Inr (t, calls))
           \<and> set (literal_leaves t) \<subseteq> set calls"
proof -
  have e: "secondPass_enter K (Literal v) = Some (Inr (Some t))"
    using assms(1) by (rule enter_literal)
  show ?thesis
  proof (cases t)
    case (Literal w)
    have "w = v" using transform_result_shape [OF assms(1)] Literal by simp
    then show ?thesis using walk_replaced [OF e assms(2)] Literal by simp
  next
    case (BinaryExpression operator l r)
    then show ?thesis
      using walk_replaced [OF e assms(2)] literal_leaves_preorder [of l] literal_leaves_preorder [of r]
      by auto
  next
    case (Identifier x)
    then show ?thesis using walk_replaced [OF e assms(2)] by simp
  qed
qed

lemma walk_any:
  assumes "K \<noteq> Fin 0" and "K \<noteq> NaN"
  shows "\<exists>t' calls. replace_walk (secondPass_enter K) t = Some (Inr (t', calls))
           \<and> evaluate t' = evaluate t"
proof (induction t)
  case (Literal v)
  obtain t cs where "transformLiteralNodeByChunkLength (Literal v) K = Some (Inr (t, cs))"
    and "settled K t" and "evaluate t = evaluate (Literal v)"
    using transform_literal_cases [OF assms] by blast
  then show ?case using walk_literal by blast
next
  case (BinaryExpression operator l r)
  then obtain l' r' c1 c2 where
    l: "replace_walk (secondPass_enter K) l = Some (Inr (l', c1))" "evaluate l' = evaluate l" and
    r: "replace_walk (secondPass_enter K) r = Some (Inr (r', c2))" "evaluate r' = evaluate r"
    by blast
  have "secondPass_enter K (BinaryExpression operator l r) = Some (Inr None)"
    by (simp add: enter_non_literal)
  then have "replace_walk (secondPass_enter K) (BinaryExpression operator l r) =
    Some (Inr (BinaryExpression operator l' r', BinaryExpression operator l r # c1 @ c2))"
    using l(1) r(1) by (subst replace_walk.simps) simp
  then show ?case by (simp add: l(2) r(2) cong: option.case_cong)
next
  case (Identifier x)
  have "secondPass_enter K (Identifier x) = Some (Inr None)"
    by (simp add: enter_non_literal)
  then have "replace_walk (secondPass_enter K) (Identifier x) = Some (Inr (Identifier x, [Identifier x]))"
    by (subst replace_walk.simps) simp
  then show ?case by simp
qed

section \<open>transformNode\<close>

lemma transform_zero_diverges:
  "S \<noteq> [] \<Longrightarrow> transformLiteralNodeByChunkLength (Literal (StringValue S)) (Fin 0) = None"
proof -
  assume "S \<noteq> []"
  then have "0 < stringz_length S" using stringz_length_zero [of S] by simp
  then show ?thesis
    by (simp add: transformLiteralNodeByChunkLength_def chunkString_zero)
qed

lemma walk_extend_right_diverges:
  "replace_walk (secondPass_enter K) t = None \<Longrightarrow>
   replace_walk (secondPass_enter K) (foldl extend_right t cs) = None"
proof (induction cs arbitrary: t)
  case Nil
  then show ?case by simp
next
  case (Cons c cs)
  have "secondPass_enter K (extend_right t c) = Some (Inr None)"
    by (simp add: enter_non_literal)
  then have "replace_walk (secondPass_enter K) (extend_right t c) = None"
    using Cons.prems by (subst replace_walk.simps) simp
  then show ?case using Cons.IH by simp
qed

lemma walk_zero_diverges:
  assumes "c0 \<noteq> []"
  shows "replace_walk (secondPass_enter (Fin 0))
           (foldl extend_right
              (BinaryExpression ''+'' (Literal (StringValue c0)) (Literal (StringValue c1))) rest) = None"
proof -
  have "secondPass_enter (Fin 0) (Literal (StringValue c0)) = None"
    using assms by (simp add: enter_literal_None transform_zero_diverges)
  then have "replace_walk (secondPass_enter (Fin 0)) (Literal (StringValue c0)) = None"
    by (subst replace_walk.simps) simp
  moreover have "secondPass_enter (Fin 0)
      (BinaryExpression ''+'' (Literal (StringValue c0)) (Literal (StringValue c1))) = Some (Inr None)"
    by (simp add: enter_non_literal)
  ultimately have "replace_walk (secondPass_enter (Fin 0))
      (BinaryExpression ''+'' (Literal (StringValue c0)) (Literal (StringValue c1))) = None"
    by (subst replace_walk.simps) simp
  then show ?thesis by (rule walk_extend_right_diverges)
qed

lemma first_pass_small:
  "stringz_length S \<le> 1000 \<Longrightarrow>
   transformLiteralNodeByChunkLength (Literal (StringValue S)) (Fin firstPassChunkLength) =
     Some (Inr (Literal (StringValue S), []))"
  by (simp add: transform_unchanged firstPassChunkLength_def)

lemma first_pass_split:
  assumes "1000 < stringz_length S"
  obtains c0 c1 rest where "chunks_of S 1000 = c0 # c1 # rest" and "c0 \<noteq> []"
    and "transformLiteralNodeByChunkLength (Literal (StringValue S)) (Fin firstPassChunkLength) =
     Some (Inr (foldl extend_right
                  (BinaryExpression ''+'' (Literal (StringValue c0)) (Literal (StringValue c1)))
                  rest, rest))"
proof -
  have k: "1 \<le> (1000::nat)" by simp
  obtain c0 c1 rest where e: "chunks_of S 1000 = c0 # c1 # rest" and ne: "c0 \<noteq> []"
    using chunks_of_split [OF k assms] by metis
  show ?thesis
    using that [OF e ne] transform_split [OF k assms e] by (simp add: firstPassChunkLength_def)
qed

lemma stringChunksCount_small:
  "stringz_length S \<le> 1000 \<Longrightarrow> stringChunksCount (Literal (StringValue S)) = Some (Inr 0)"
  by (simp add: stringChunksCount_def first_pass_small)

lemma stringChunksCount_split:
  assumes "1000 < stringz_length S"
  shows "stringChunksCount (Literal (StringValue S)) =
           Some (Inr ((stringz_length S + 999) div 1000 - 2))"
proof -
  obtain c0 c1 rest where e: "chunks_of S 1000 = c0 # c1 # rest"
    and t: "transformLiteralNodeByChunkLength (Literal (StringValue S)) (Fin firstPassChunkLength) =
     Some (Inr (foldl extend_right
                  (BinaryExpression ''+'' (Literal (StringValue c0)) (Literal (StringValue c1)))
                  rest, rest))"
    using first_pass_split [OF assms] by metis
  have "length (chunks_of S 1000) = (stringz_length S + 999) div 1000"
    by (simp add: length_chunks_of)
  then have "length rest = (stringz_length S + 999) div 1000 - 2" using e by simp
  then show ?thesis by (simp add: stringChunksCount_def t)
qed

lemma minSecondPathChunkLength_not_NaN: "minSecondPathChunkLength opts n \<noteq> NaN"
  by (auto simp: minSecondPathChunkLength_def floor_quotient_def isLargeString_def
        maxStringLengthForSecondPass_def firstPassChunkLength_def)

lemma transformNode_unfold:
  assumes "\<not> isProhibitedLiteralNode literalNode' parentNode"
    and "transformLiteralNodeByChunkLength literalNode' (Fin firstPassChunkLength) =
           Some (Inr (firstPassChunksNode, stringChunks))"
  shows "transformNode isProhibitedLiteralNode opts literalNode' parentNode =
           estraverse_replace firstPassChunksNode
             (secondPass_enter (minSecondPathChunkLength opts (length stringChunks)))"
  using assms by (simp add: transformNode_def)

lemma transformNode_diverges:
  assumes "\<not> isProhibitedLiteralNode (Literal (StringValue S)) parentNode"
    and "1000 < stringz_length S"
    and "minSecondPathChunkLength opts ((stringz_length S + 999) div 1000 - 2) = Fin 0"
  shows "transformNode isProhibitedLiteralNode opts (Literal (StringValue S)) parentNode = None"
proof -
  obtain c0 c1 rest where e: "chunks_of S 1000 = c0 # c1 # rest" and ne: "c0 \<noteq> []"
    and t: "transformLiteralNodeByChunkLength (Literal (StringValue S)) (Fin firstPassChunkLength) =
     Some (Inr (foldl extend_right
                  (BinaryExpression ''+'' (Literal (StringValue c0)) (Literal (StringValue c1)))
                  rest, rest))"
    using first_pass_split [OF assms(2)] by metis
  have "length (chunks_of S 1000) = (stringz_length S + 999) div 1000"
    by (simp add: length_chunks_of)
  then have "length rest = (stringz_length S + 999) div 1000 - 2" using e by simp
  then have "minSecondPathChunkLength opts (length rest) = Fin 0" using assms(3) by simp
  then show ?thesis
    using assms(1) t walk_zero_diverges [OF ne]
      transformNode_unfold [where isProhibitedLiteralNode = isProhibitedLiteralNode and opts = opts]
    by (simp add: estraverse_replace_def)
qed

lemma transformNode_returns:
  assumes "transformLiteralNodeByChunkLength (Literal (StringValue S)) (Fin firstPassChunkLength) =
             Some (Inr (firstPassChunksNode, stringChunks))"
    and "minSecondPathChunkLength opts (length stringChunks) \<noteq> Fin 0"
  shows "\<exists>t. transformNode isProhibitedLiteralNode opts (Literal (StringValue S)) parentNode =
               Some (Inr t) \<and> evaluate t = Some S"
proof (cases "isProhibitedLiteralNode (Literal (StringValue S)) parentNode")
  case True
  then show ?thesis by (simp add: transformNode_def)
next
  case False
  have ev: "evaluate firstPassChunksNode = Some S"
  proof (cases "1000 < stringz_length S")
    case True
    have k: "1 \<le> (1000::nat)" by simp
    show ?thesis using settled_split(2) [OF k True] assms(1) by (simp add: firstPassChunkLength_def)
  next
    case False
    then show ?thesis using first_pass_small [of S] assms(1) by auto
  qed
  obtain t' calls where
    "replace_walk (secondPass_enter (minSecondPathChunkLength opts (length stringChunks)))
       firstPassChunksNode = Some (Inr (t', calls))"
    and "evaluate t' = evaluate firstPassChunksNode"
    using walk_any [OF assms(2) minSecondPathChunkLength_not_NaN] by blast
  then show ?thesis
    using False assms(1) ev
      transformNode_unfold [where isProhibitedLiteralNode = isProhibitedLiteralNode and opts = opts]
    by (simp add: estraverse_replace_def)
qed

lemma transformNode_result_evaluates:
  assumes "transformNode isProhibitedLiteralNode opts (Literal (StringValue S)) parentNode =
             Some (Inr t)"
  shows "evaluate t = Some S"
proof (cases "isProhibitedLiteralNode (Literal (StringValue S)) parentNode")
  case True
  then have "t = Literal (StringValue S)" using assms by (simp add: transformNode_def)
  then show ?thesis by simp
next
  case np: False
  have "\<exists>n cs.
    transformLiteralNodeByChunkLength (Literal (StringValue S)) (Fin firstPassChunkLength) =
       Some (Inr (n, cs))"
  proof (cases "1000 < stringz_length S")
    case True
    then show ?thesis using first_pass_split [of S] by metis
  next
    case False
    then show ?thesis using first_pass_small [of S] by simp
  qed
  then obtain n cs where fp:
    "transformLiteralNodeByChunkLength (Literal (StringValue S)) (Fin firstPassChunkLength) =
       Some (Inr (n, cs))"
    by blast
  have tn: "transformNode isProhibitedLiteralNode opts (Literal (StringValue S)) parentNode =
      estraverse_replace n (secondPass_enter (minSecondPathChunkLength opts (length cs)))"
    using np fp by (simp add: transformNode_def)
  show ?thesis
  proof (cases "minSecondPathChunkLength opts (length cs) = Fin 0")
    case False
    then show ?thesis
      using transformNode_returns [OF fp False, of isProhibitedLiteralNode parentNode] assms
      by auto
  next
    case zero: True
    show ?thesis
    proof (cases "1000 < stringz_length S")
      case True
      then have "stringChunksCount (Literal (StringValue S)) =
           Some (Inr ((stringz_length S + 999) div 1000 - 2))"
        by (rule stringChunksCount_split)
      then have "length cs = (stringz_length S + 999) div 1000 - 2"
        using fp by (simp add: stringChunksCount_def)
      then show ?thesis
        using np True zero assms
          transformNode_diverges [of isProhibitedLiteralNode S parentNode opts]
        by simp
    next
      case False
      then have n: "n = Literal (StringValue S)" using first_pass_small [of S] fp by simp
      show ?thesis
      proof (cases "S = []")
        case True
        then have "transformLiteralNodeByChunkLength (Literal (StringValue S)) (Fin 0) =
                     Some (Inr (Literal (StringValue S), []))"
          by (simp add: transform_unchanged stringz_length_def)
        then have "secondPass_enter (Fin 0) (Literal (StringValue S)) =
                     Some (Inr (Some (Literal (StringValue S))))"
          by (rule enter_literal)
        then have "replace_walk (secondPass_enter (Fin 0)) (Literal (StringValue S)) =
                     Some (Inr (Literal (StringValue S), [Literal (StringValue S)]))"
          by (subst replace_walk.simps) simp
        then have "transformNode isProhibitedLiteralNode opts (Literal (StringValue S)) parentNode =
                     Some (Inr (Literal (StringValue S)))"
          unfolding tn zero n estraverse_replace_def by simp
        then have "t = Literal (StringValue S)" using assms by simp
        then show ?thesis by simp
      next
        case False
        then have "secondPass_enter (Fin 0) (Literal (StringValue S)) = None"
          by (simp add: enter_literal_None transform_zero_diverges)
        then have "replace_walk (secondPass_enter (Fin 0)) (Literal (StringValue S)) = None"
          by (subst replace_walk.simps) simp
        then have "transformNode isProhibitedLiteralNode opts (Literal (StringValue S)) parentNode =
                     None"
          unfolding tn zero n estraverse_replace_def by simp
        then show ?thesis using assms by simp
      qed
    qed
  qed
qed

lemma toArray_replicate:
  "\<not> is_high_surrogate a \<Longrightarrow> toArray (replicate n a) = replicate n [a]"
proof (induction n)
  case 0
  show ?case by simp
next
  case (Suc n)
  then show ?case by (cases n) simp_all
qed

lemma stringz_length_replicate:
  "\<not> is_high_surrogate a \<Longrightarrow> stringz_length (replicate n a) = n"
  by (simp add: stringz_length_def toArray_replicate)

lemma not_high_0x61: "\<not> is_high_surrogate 0x61"
  by (simp add: is_high_surrogate_def)

lemma transform_settled:
  assumes "transformLiteralNodeByChunkLength (Literal v) K = Some (Inr (t, cs))"
  shows "settled K t"
proof (cases "isStringLiteralNode (Literal v)")
  case False
  then have "transformLiteralNodeByChunkLength (Literal v) K = Some (Inr (Literal v, []))"
    by (rule transform_non_string)
  then show ?thesis using assms settled_unchanged by simp
next
  case True
  then obtain S where v: "v = StringValue S" by (cases v) auto
  show ?thesis
  proof (cases "number_ge K (stringz_length S)")
    case True
    then have "transformLiteralNodeByChunkLength (Literal v) K = Some (Inr (Literal v, []))"
      unfolding v by (rule transform_unchanged)
    then show ?thesis using assms settled_unchanged by simp
  next
    case False
    show ?thesis
    proof (cases K)
      case (Fin k)
      show ?thesis
      proof (cases "k = 0")
        case True
        then have "S \<noteq> []" using False Fin by (auto simp: stringz_length_def)
        then show ?thesis using assms transform_zero_diverges True Fin v by simp
      next
        case nz: False
        then have "1 \<le> k" "k < stringz_length S" using False Fin by simp_all
        then show ?thesis using settled_split(1) assms v Fin by simp
      qed
    next
      case PosInfinity
      then show ?thesis using False by simp
    next
      case NaN
      then show ?thesis using assms v False
        by (simp add: transformLiteralNodeByChunkLength_def chunkString_def
              transformStringChunksToBinaryExpressionNode_def)
    qed
  qed
qed

section \<open>The sizing of the two passes\<close>

text \<open>
  Claim C1, as stated, fails: for a one-character string literal the first pass leaves the
  literal whole and reports no chunks, so the recorded count is 0 and not
  \<open>\<lceil>1 / 1000\<rceil> = 1\<close>.
\<close>

theorem first_pass_count_counterexample:
  "stringChunksCount (Literal (StringValue [0x61])) \<noteq>
     Some (Inr (nat \<lceil>real (stringz_length [0x61]) / real firstPassChunkLength\<rceil>))"
proof -
  have l: "stringz_length [0x61] = 1" by (simp add: stringz_length_def)
  then have "stringChunksCount (Literal (StringValue [0x61])) = Some (Inr 0)"
    by (simp add: stringChunksCount_small)
  moreover have "\<lceil>(1::real) / 1000\<rceil> = 1" by (rule ceiling_unique) simp_all
  then have "nat \<lceil>real (stringz_length [0x61]) / real firstPassChunkLength\<rceil> = 1"
    by (simp add: l firstPassChunkLength_def)
  ultimately show ?thesis by simp
qed

text \<open>
  Claim C1, amended. For a string literal that is not prohibited and a configured chunk
  length of at least 1, the first pass returns a node and a chunk array, and \<open>N1\<close> is the
  length of that array; \<open>N1\<close> is 0 when the code-point length is at most 1000; the string
  counts as large exactly when \<open>N1 \<ge> 30\<close>; and the second pass walks the node of the first
  pass with the chunk length \<open>\<lfloor>N1 / splitStringsChunkLength\<rfloor>\<close> when large and
  \<open>splitStringsChunkLength\<close> otherwise.
\<close>

theorem first_pass_sizing:
  assumes "\<not> isProhibitedLiteralNode (Literal (StringValue S)) parentNode"
    and "1 \<le> splitStringsChunkLength opts"
  shows "\<exists>firstPassChunksNode stringChunks N1.
      transformLiteralNodeByChunkLength (Literal (StringValue S)) (Fin firstPassChunkLength) =
        Some (Inr (firstPassChunksNode, stringChunks))
    \<and> N1 = length stringChunks
    \<and> (stringz_length S \<le> 1000 \<longrightarrow> N1 = 0)
    \<and> (isLargeString N1 \<longleftrightarrow> 30 \<le> N1)
    \<and> transformNode isProhibitedLiteralNode opts (Literal (StringValue S)) parentNode =
        estraverse_replace firstPassChunksNode
          (secondPass_enter
             (if 30 \<le> N1 then Fin (N1 div splitStringsChunkLength opts)
              else Fin (splitStringsChunkLength opts)))"
proof -
  have "\<exists>n cs.
    transformLiteralNodeByChunkLength (Literal (StringValue S)) (Fin firstPassChunkLength) =
       Some (Inr (n, cs))"
  proof (cases "1000 < stringz_length S")
    case True
    then show ?thesis using first_pass_split [of S] by metis
  next
    case False
    then show ?thesis using first_pass_small [of S] by simp
  qed
  then obtain n cs where fp:
    "transformLiteralNodeByChunkLength (Literal (StringValue S)) (Fin firstPassChunkLength) =
       Some (Inr (n, cs))"
    by blast
  have small: "length cs = 0" if "stringz_length S \<le> 1000"
    using first_pass_small [OF that] fp by simp
  have large: "isLargeString (length cs) \<longleftrightarrow> 30 \<le> length cs"
    by (simp add: isLargeString_def maxStringLengthForSecondPass_def firstPassChunkLength_def)
  have len: "minSecondPathChunkLength opts (length cs) =
      (if 30 \<le> length cs then Fin (length cs div splitStringsChunkLength opts)
       else Fin (splitStringsChunkLength opts))"
    using assms(2) large by (simp add: minSecondPathChunkLength_def floor_quotient_def)
  have "transformNode isProhibitedLiteralNode opts (Literal (StringValue S)) parentNode =
      estraverse_replace n (secondPass_enter (minSecondPathChunkLength opts (length cs)))"
    using assms(1) fp by (simp add: transformNode_def)
  then show ?thesis using fp small large len by (intro exI [of _ n] exI [of _ cs] exI [of _ "length cs"]) simp
qed

theorem first_pass_sizing_witness:
  "\<not> (\<lambda>literalNode' parentNode. False) (Literal (StringValue [0x61, 0x62, 0x63])) (Identifier ''parent'')
   \<and> 1 \<le> splitStringsChunkLength \<lparr>splitStrings = True, splitStringsChunkLength = 2\<rparr>
   \<and> (\<exists>firstPassChunksNode stringChunks N1.
      transformLiteralNodeByChunkLength (Literal (StringValue [0x61, 0x62, 0x63])) (Fin firstPassChunkLength) =
        Some (Inr (firstPassChunksNode, stringChunks))
    \<and> N1 = length stringChunks
    \<and> (stringz_length [0x61, 0x62, 0x63] \<le> 1000 \<longrightarrow> N1 = 0)
    \<and> (isLargeString N1 \<longleftrightarrow> 30 \<le> N1)
    \<and> transformNode (\<lambda>literalNode' parentNode. False)
          \<lparr>splitStrings = True, splitStringsChunkLength = 2\<rparr>
          (Literal (StringValue [0x61, 0x62, 0x63])) (Identifier ''parent'') =
        estraverse_replace firstPassChunksNode
          (secondPass_enter
             (if 30 \<le> N1
              then Fin (N1 div splitStringsChunkLength \<lparr>splitStrings = True, splitStringsChunkLength = 2\<rparr>)
              else Fin (splitStringsChunkLength \<lparr>splitStrings = True, splitStringsChunkLength = 2\<rparr>))))"
proof -
  have h1: "\<not> (\<lambda>literalNode' parentNode. False) (Literal (StringValue [0x61, 0x62, 0x63])) (Identifier ''parent'')"
    by simp
  have h2: "1 \<le> splitStringsChunkLength \<lparr>splitStrings = True, splitStringsChunkLength = 2\<rparr>"
    by simp
  show ?thesis
    using h1 h2
      first_pass_sizing [of "\<lambda>literalNode' parentNode. False" "[0x61, 0x62, 0x63]" "Identifier ''parent''"
        "\<lparr>splitStrings = True, splitStringsChunkLength = 2\<rparr>"]
    by (intro conjI) simp_all
qed

text \<open>
  Claim C2 at its own input: a string literal of 50000 code points and a configured chunk
  length of 5. The first pass cuts the string into 50 chunks, but the code records the
  count 48, since the builder has shifted the first two chunks out of the array whose
  length is read; the string counts as large and the chunk length of the second pass is
  \<open>\<lfloor>48 / 5\<rfloor> = 9\<close>. The claim says 50 and 10.
\<close>

theorem large_string_sizing_recorded:
  "map_option length
     (chunkString (replicate 50000 0x61) (stringz_length (replicate 50000 0x61))
        (Fin firstPassChunkLength)) = Some 50
   \<and> stringChunksCount (Literal (StringValue (replicate 50000 0x61))) = Some (Inr 48)
   \<and> isLargeString 48
   \<and> minSecondPathChunkLength \<lparr>splitStrings = True, splitStringsChunkLength = 5\<rparr> 48 = Fin 9"
proof (intro conjI)
  let ?S = "replicate 50000 (0x61 :: code_unit)"
  have l: "stringz_length ?S = 50000"
    using not_high_0x61 by (rule stringz_length_replicate)
  have "chunkString ?S (stringz_length ?S) (Fin 1000) = Some (chunks_of ?S 1000)"
    by (rule chunkString_chunks_of) simp
  moreover have "length (chunks_of ?S 1000) = 50"
    unfolding length_chunks_of l by simp
  ultimately show "map_option length
     (chunkString ?S (stringz_length ?S) (Fin firstPassChunkLength)) = Some 50"
    by (simp only: firstPassChunkLength_def option.map)
  have "1000 < stringz_length ?S" unfolding l by simp
  then have "stringChunksCount (Literal (StringValue ?S)) =
      Some (Inr ((stringz_length ?S + 999) div 1000 - 2))"
    by (rule stringChunksCount_split)
  also have "(stringz_length ?S + 999) div 1000 - 2 = 48" unfolding l by simp
  finally show "stringChunksCount (Literal (StringValue ?S)) = Some (Inr 48)" .
  show "isLargeString 48"
    by (simp add: isLargeString_def maxStringLengthForSecondPass_def firstPassChunkLength_def)
  then show "minSecondPathChunkLength \<lparr>splitStrings = True, splitStringsChunkLength = 5\<rparr> 48 = Fin 9"
    by (simp add: minSecondPathChunkLength_def floor_quotient_def)
qed

section \<open>The result of the two passes\<close>

text \<open>
  What holds of the two passes: whatever expression \<open>transformNode\<close> returns for a string
  literal evaluates to exactly the original string value, whether or not the string counts
  as large; and \<open>transformNode\<close> does return such an expression whenever the chunk length
  computed for the second pass is not 0.
\<close>

lemma two_phase_equivalence_where_returning:
  "(transformNode isProhibitedLiteralNode opts (Literal (StringValue S)) parentNode = Some (Inr t)
      \<longrightarrow> evaluate t = Some S)
   \<and> (\<exists>N1. stringChunksCount (Literal (StringValue S)) = Some (Inr N1)
         \<and> (minSecondPathChunkLength opts N1 \<noteq> Fin 0 \<longrightarrow>
              (\<exists>t'. transformNode isProhibitedLiteralNode opts (Literal (StringValue S)) parentNode
                      = Some (Inr t') \<and> evaluate t' = Some S)))"
proof (intro conjI impI)
  assume "transformNode isProhibitedLiteralNode opts (Literal (StringValue S)) parentNode = Some (Inr t)"
  then show "evaluate t = Some S" by (rule transformNode_result_evaluates)
next
  have "\<exists>n cs.
    transformLiteralNodeByChunkLength (Literal (StringValue S)) (Fin firstPassChunkLength) =
       Some (Inr (n, cs))"
  proof (cases "1000 < stringz_length S")
    case True
    then show ?thesis using first_pass_split [of S] by metis
  next
    case False
    then show ?thesis using first_pass_small [of S] by simp
  qed
  then obtain n cs where fp:
    "transformLiteralNodeByChunkLength (Literal (StringValue S)) (Fin firstPassChunkLength) =
       Some (Inr (n, cs))"
    by blast
  then have "stringChunksCount (Literal (StringValue S)) = Some (Inr (length cs))"
    by (simp add: stringChunksCount_def)
  moreover have "\<exists>t'. transformNode isProhibitedLiteralNode opts (Literal (StringValue S)) parentNode
                      = Some (Inr t') \<and> evaluate t' = Some S"
    if "minSecondPathChunkLength opts (length cs) \<noteq> Fin 0"
    using transformNode_returns [OF fp that] by simp
  ultimately show "\<exists>N1. stringChunksCount (Literal (StringValue S)) = Some (Inr N1)
         \<and> (minSecondPathChunkLength opts N1 \<noteq> Fin 0 \<longrightarrow>
              (\<exists>t'. transformNode isProhibitedLiteralNode opts (Literal (StringValue S)) parentNode
                      = Some (Inr t') \<and> evaluate t' = Some S))"
    by blast
qed

lemma two_phase_equivalence_example:
  "minSecondPathChunkLength \<lparr>splitStrings = True, splitStringsChunkLength = 2\<rparr> 0 \<noteq> Fin 0
   \<and> transformNode (\<lambda>literalNode' parentNode. False)
        \<lparr>splitStrings = True, splitStringsChunkLength = 2\<rparr>
        (Literal (StringValue [0x61, 0x62, 0x63])) (Identifier ''parent'') =
       Some (Inr (BinaryExpression ''+'' (Literal (StringValue [0x61, 0x62]))
                    (Literal (StringValue [0x63]))))
   \<and> evaluate (BinaryExpression ''+'' (Literal (StringValue [0x61, 0x62]))
                    (Literal (StringValue [0x63]))) = Some [0x61, 0x62, 0x63]"
proof -
  let ?opts = "\<lparr>splitStrings = True, splitStringsChunkLength = 2\<rparr>"
  let ?t = "BinaryExpression ''+'' (Literal (StringValue [0x61, 0x62])) (Literal (StringValue [0x63]))"
  have fp: "transformLiteralNodeByChunkLength (Literal (StringValue [0x61, 0x62, 0x63]))
              (Fin firstPassChunkLength) = Some (Inr (Literal (StringValue [0x61, 0x62, 0x63]), []))"
    by (simp add: first_pass_small stringz_length_def)
  have k2: "minSecondPathChunkLength ?opts 0 = Fin 2"
    by (simp add: minSecondPathChunkLength_def isLargeString_def maxStringLengthForSecondPass_def
          firstPassChunkLength_def)
  have sp: "transformLiteralNodeByChunkLength (Literal (StringValue [0x61, 0x62, 0x63])) (Fin 2) =
              Some (Inr (?t, []))"
    by (simp add: transformLiteralNodeByChunkLength_def stringz_length_def is_high_surrogate_def
          chunkString_def chunkString_loop.simps array_set_def stringz_substr_def
          transformStringChunksToBinaryExpressionNode_def literalNode_def binaryExpressionNode_def)
  obtain calls where
    "replace_walk (secondPass_enter (Fin 2)) (Literal (StringValue [0x61, 0x62, 0x63])) =
       Some (Inr (?t, calls))"
    using walk_literal [OF sp transform_settled [OF sp]] by blast
  then have h1: "transformNode (\<lambda>literalNode' parentNode. False) ?opts
        (Literal (StringValue [0x61, 0x62, 0x63])) (Identifier ''parent'') = Some (Inr ?t)"
    by (simp add: transformNode_def fp k2 estraverse_replace_def)
  have h2: "minSecondPathChunkLength ?opts 0 \<noteq> Fin 0" by (simp add: k2)
  show ?thesis
    using h1 h2
      two_phase_equivalence_where_returning [of "\<lambda>literalNode' parentNode. False" ?opts "[0x61, 0x62, 0x63]"
        "Identifier ''parent''" ?t]
    by blast
qed

text \<open>
  Claim C4 at a failing input: a string literal of 32000 code points, not prohibited, and a
  configured chunk length of 100. The string counts as large and the chunk length of the
  second pass is 0, so the second pass does not return: \<open>transformNode\<close> produces no
  expression at all, and none that evaluates to the original string.
\<close>

theorem two_phase_equivalence_fails:
  "\<not> (\<exists>t. transformNode (\<lambda>literalNode' parentNode. False)
              \<lparr>splitStrings = True, splitStringsChunkLength = 100\<rparr>
              (Literal (StringValue (replicate 32000 0x61))) (Identifier ''parent'') = Some (Inr t)
            \<and> evaluate t = Some (replicate 32000 0x61))"
proof -
  let ?S = "replicate 32000 (0x61 :: code_unit)"
  let ?opts = "\<lparr>splitStrings = True, splitStringsChunkLength = 100\<rparr>"
  have l: "stringz_length ?S = 32000"
    using not_high_0x61 by (rule stringz_length_replicate)
  have big: "1000 < stringz_length ?S" unfolding l by simp
  have n: "(stringz_length ?S + 999) div 1000 - 2 = 30" unfolding l by simp
  have z: "minSecondPathChunkLength ?opts 30 = Fin 0"
    by (simp add: minSecondPathChunkLength_def floor_quotient_def isLargeString_def
          maxStringLengthForSecondPass_def firstPassChunkLength_def)
  have np: "\<not> (\<lambda>literalNode' parentNode. False) (Literal (StringValue ?S)) (Identifier ''parent'')"
    by (rule notI)
  have z': "minSecondPathChunkLength ?opts ((stringz_length ?S + 999) div 1000 - 2) = Fin 0"
    by (simp only: n z)
  have "transformNode (\<lambda>literalNode' parentNode. False) ?opts
        (Literal (StringValue ?S)) (Identifier ''parent'') = None"
    by (rule transformNode_diverges [where isProhibitedLiteralNode = "\<lambda>literalNode' parentNode. False",
          OF np big z'])
  then show ?thesis by simp
qed

text \<open>
  Claim C5 at a failing input: a string literal of 32000 code points and a configured
  chunk length of 100. The recorded count is 30, the string counts as large, and the chunk
  length of the second pass is \<open>\<lfloor>30 / 100\<rfloor> = 0\<close>. The second pass then calls
  \<open>chunkString\<close> on the first chunk of 1000 code points with chunk size 0, whose loop bound
  is \<open>Infinity\<close>: \<open>transformNode\<close> does not return.
\<close>

theorem zero_chunk_length_never_returns:
  "stringChunksCount (Literal (StringValue (replicate 32000 0x61))) = Some (Inr 30)
   \<and> minSecondPathChunkLength \<lparr>splitStrings = True, splitStringsChunkLength = 100\<rparr> 30 = Fin 0
   \<and> transformNode (\<lambda>literalNode' parentNode. False)
        \<lparr>splitStrings = True, splitStringsChunkLength = 100\<rparr>
        (Literal (StringValue (replicate 32000 0x61))) (Identifier ''parent'') = None"
proof (intro conjI)
  let ?S = "replicate 32000 (0x61 :: code_unit)"
  let ?opts = "\<lparr>splitStrings = True, splitStringsChunkLength = 100\<rparr>"
  have l: "stringz_length ?S = 32000"
    using not_high_0x61 by (rule stringz_length_replicate)
  have big: "1000 < stringz_length ?S" unfolding l by simp
  then have "stringChunksCount (Literal (StringValue ?S)) =
      Some (Inr ((stringz_length ?S + 999) div 1000 - 2))"
    by (rule stringChunksCount_split)
  also have n: "(stringz_length ?S + 999) div 1000 - 2 = 30" unfolding l by simp
  finally show "stringChunksCount (Literal (StringValue ?S)) = Some (Inr 30)" .
  show z: "minSecondPathChunkLength ?opts 30 = Fin 0"
    by (simp add: minSecondPathChunkLength_def floor_quotient_def isLargeString_def
          maxStringLengthForSecondPass_def firstPassChunkLength_def)
  have np: "\<not> (\<lambda>literalNode' parentNode. False) (Literal (StringValue ?S)) (Identifier ''parent'')"
    by (rule notI)
  have z': "minSecondPathChunkLength ?opts ((stringz_length ?S + 999) div 1000 - 2) = Fin 0"
    by (simp only: n z)
  show "transformNode (\<lambda>literalNode' parentNode. False) ?opts
        (Literal (StringValue ?S)) (Identifier ''parent'') = None"
    by (rule transformNode_diverges [where isProhibitedLiteralNode = "\<lambda>literalNode' parentNode. False",
          OF np big z'])
qed

section \<open>Re-entry of the second pass\<close>

text \<open>
  Claim C7, as stated, fails: walking the literal \<open>ab\<close> with chunk length 1, the callback
  of the second pass is called on the literal, which it replaces by \<open>a + b\<close>, and then
  again on the two literals \<open>a\<close> and \<open>b\<close> it has just produced.
\<close>

theorem second_pass_reenters_fresh_leaves:
  "replace_walk (secondPass_enter (Fin 1)) (Literal (StringValue [0x61, 0x62])) =
     Some (Inr (BinaryExpression ''+'' (Literal (StringValue [0x61])) (Literal (StringValue [0x62])),
                [Literal (StringValue [0x61, 0x62]),
                 Literal (StringValue [0x61]),
                 Literal (StringValue [0x62])]))"
  by code_simp

text \<open>
  Claim C7, amended. When the callback of the second pass substitutes a sub-tree for a
  literal, the walk goes on into that sub-tree and calls the callback on each of its
  literal leaves; each such call returns the leaf as it is with an empty chunk list, and
  the walk leaves the substituted sub-tree unchanged. No leaf is split a second time.
\<close>

theorem second_pass_revisits_without_resplitting:
  assumes "transformLiteralNodeByChunkLength (Literal v) K = Some (Inr (t, cs))"
  shows "(\<forall>x \<in> set (literal_leaves t).
            transformLiteralNodeByChunkLength x K = Some (Inr (x, [])))
         \<and> (\<exists>calls. replace_walk (secondPass_enter K) (Literal v) = Some (Inr (t, calls))
                \<and> set (literal_leaves t) \<subseteq> set calls)"
proof -
  have s: "settled K t" using assms by (rule transform_settled)
  then show ?thesis using walk_literal [OF assms s] by (simp add: settled_def)
qed

theorem second_pass_revisits_without_resplitting_witness:
  "transformLiteralNodeByChunkLength (Literal (StringValue [0x61, 0x62])) (Fin 1) =
     Some (Inr (BinaryExpression ''+'' (Literal (StringValue [0x61])) (Literal (StringValue [0x62])), []))
   \<and> transformLiteralNodeByChunkLength (Literal (StringValue [0x61])) (Fin 1) =
       Some (Inr (Literal (StringValue [0x61]), []))
   \<and> transformLiteralNodeByChunkLength (Literal (StringValue [0x62])) (Fin 1) =
       Some (Inr (Literal (StringValue [0x62]), []))
   \<and> (\<exists>calls. replace_walk (secondPass_enter (Fin 1)) (Literal (StringValue [0x61, 0x62])) =
          Some (Inr (BinaryExpression ''+'' (Literal (StringValue [0x61])) (Literal (StringValue [0x62])), calls))
        \<and> set (literal_leaves
          (BinaryExpression ''+'' (Literal (StringValue [0x61])) (Literal (StringValue [0x62]))))
            \<subseteq> set calls)"
proof -
  have h: "transformLiteralNodeByChunkLength (Literal (StringValue [0x61, 0x62])) (Fin 1) =
     Some (Inr (BinaryExpression ''+'' (Literal (StringValue [0x61])) (Literal (StringValue [0x62])), []))"
    by code_simp
  show ?thesis using h second_pass_revisits_without_resplitting [OF h] by simp
qed

section \<open>Seeding of the random generator\<close>

text \<open>
  Claim C10. With a non-zero seed, \<open>obfuscate\<close> replaces the process-wide random generator
  by the generator made from the seed exactly once, as its first call, before parsing and
  before the storage and the obfuscator run: the storage draws from the seeded generator
  itself and the obfuscator from what the storage leaves of it, and the result (generated
  code and source map) is what the collaborators compute from the source, the options and
  the seeded generator alone. Two runs on the same source, options and non-zero seed
  therefore give the same result, whatever state the generator was in before each. With
  seed 0 the generator is never replaced: the storage draws from the generator that was
  in place before the run.
\<close>

theorem seeded_run_deterministic:
  "(seed opts \<noteq> 0 \<longrightarrow>
      (let g0 = chance c (seed opts);
           astTree = parentize c (esprima_parse c sourceCode);
           (customNodesStorage, g1) = storage_initialize c opts astTree g0;
           (obfuscatedAstTree, g2) = obfuscateAstTree c opts astTree customNodesStorage g1
       in obfuscate c opts sourceCode p =
            (getObfuscationResult c opts (generateCode c opts sourceCode obfuscatedAstTree),
             \<lparr>randomGenerator = g2,
              callLog = callLog p @
                [SetRandomGenerator g0, EsprimaParse, Parentize, StorageInitialize g0,
                 ObfuscateAstTree g1, EscodegenGenerate, SourceMapCorrect]\<rparr>))
      \<and> fst (obfuscate c opts sourceCode p) = fst (obfuscate c opts sourceCode p'))
   \<and> (seed opts = 0 \<longrightarrow>
      (let g0 = randomGenerator p;
           astTree = parentize c (esprima_parse c sourceCode);
           (customNodesStorage, g1) = storage_initialize c opts astTree g0;
           (obfuscatedAstTree, g2) = obfuscateAstTree c opts astTree customNodesStorage g1
       in obfuscate c opts sourceCode p =
            (getObfuscationResult c opts (generateCode c opts sourceCode obfuscatedAstTree),
             \<lparr>randomGenerator = g2,
              callLog = callLog p @
                [EsprimaParse, Parentize, StorageInitialize g0,
                 ObfuscateAstTree g1, EscodegenGenerate, SourceMapCorrect]\<rparr>)))"
  by (simp add: obfuscate_def setRandomGenerator_def logged_def Let_def split: prod.splits)

theorem seeded_run_deterministic_witness:
  "seed (example_options 1) \<noteq> 0
   \<and> obfuscate example_collaborators (example_options 1) ''a''
        \<lparr>randomGenerator = 0, callLog = []\<rparr> =
       (\<lparr>obfuscatedCode = ''axxx'', sourceMapText = []\<rparr>,
        \<lparr>randomGenerator = 3,
         callLog = [SetRandomGenerator 1, EsprimaParse, Parentize, StorageInitialize 1,
                    ObfuscateAstTree 2, EscodegenGenerate, SourceMapCorrect]\<rparr>)
   \<and> fst (obfuscate example_collaborators (example_options 1) ''a''
             \<lparr>randomGenerator = 0, callLog = []\<rparr>) =
     fst (obfuscate example_collaborators (example_options 1) ''a''
             \<lparr>randomGenerator = 5, callLog = []\<rparr>)
   \<and> seed (example_options 0) = 0
   \<and> obfuscate example_collaborators (example_options 0) ''a''
        \<lparr>randomGenerator = 1, callLog = []\<rparr> =
       (\<lparr>obfuscatedCode = ''axxx'', sourceMapText = []\<rparr>,
        \<lparr>randomGenerator = 3,
         callLog = [EsprimaParse, Parentize, StorageInitialize 1,
                    ObfuscateAstTree 2, EscodegenGenerate, SourceMapCorrect]\<rparr>)"
proof -
  have h1: "seed (example_options 1) \<noteq> 0" by (simp add: example_options_def)
  have h0: "seed (example_options 0) = 0" by (simp add: example_options_def)
  have s1: "seed (example_options 1) = 1" by (simp add: example_options_def)
  have x: "replicate 3 CHR ''x'' = ''xxx''" by (simp add: numeral_3_eq_3)
  note seeded =
    seeded_run_deterministic [of "example_options 1" example_collaborators "''a''"
      "\<lparr>randomGenerator = 0, callLog = []\<rparr>" "\<lparr>randomGenerator = 5, callLog = []\<rparr>"]
  note unseeded =
    seeded_run_deterministic [of "example_options 0" example_collaborators "''a''"
      "\<lparr>randomGenerator = 1, callLog = []\<rparr>" "\<lparr>randomGenerator = 5, callLog = []\<rparr>"]
  have a1: "obfuscate example_collaborators (example_options 1) ''a''
        \<lparr>randomGenerator = 0, callLog = []\<rparr> =
       (\<lparr>obfuscatedCode = ''axxx'', sourceMapText = []\<rparr>,
        \<lparr>randomGenerator = 3,
         callLog = [SetRandomGenerator 1, EsprimaParse, Parentize, StorageInitialize 1,
                    ObfuscateAstTree 2, EscodegenGenerate, SourceMapCorrect]\<rparr>)"
    using seeded h1 s1 x
    by (simp add: example_collaborators_def generateCode_def getObfuscationResult_def
          escodegenParams_def Let_def)
  have d1: "fst (obfuscate example_collaborators (example_options 1) ''a''
             \<lparr>randomGenerator = 0, callLog = []\<rparr>) =
     fst (obfuscate example_collaborators (example_options 1) ''a''
             \<lparr>randomGenerator = 5, callLog = []\<rparr>)"
    using seeded h1 by blast
  have a0: "obfuscate example_collaborators (example_options 0) ''a''
        \<lparr>randomGenerator = 1, callLog = []\<rparr> =
       (\<lparr>obfuscatedCode = ''axxx'', sourceMapText = []\<rparr>,
        \<lparr>randomGenerator = 3,
         callLog = [EsprimaParse, Parentize, StorageInitialize 1,
                    ObfuscateAstTree 2, EscodegenGenerate, SourceMapCorrect]\<rparr>)"
    using unseeded h0 x
    by (simp add: example_collaborators_def generateCode_def getObfuscationResult_def
          escodegenParams_def Let_def)
  show ?thesis using h1 a1 d1 h0 a0 by (intro conjI)
qed

text \<open>With seed 0 the result depends on the state the generator was in.\<close>

lemma unseeded_run_depends_on_generator:
  "fst (obfuscate example_collaborators (example_options 0) ''a'' \<lparr>randomGenerator = 0, callLog = []\<rparr>)
   \<noteq> fst (obfuscate example_collaborators (example_options 0) ''a'' \<lparr>randomGenerator = 5, callLog = []\<rparr>)"
  by (simp add: obfuscate_def example_collaborators_def example_options_def logged_def
        generateCode_def getObfuscationResult_def escodegenParams_def Let_def)

end
